theory Spec2Isabelle
  imports Complex_Main "HOL-Library.AList" "HOL-Library.Sublist"
begin

section \<open>Data model of jmhplot.py\<close>

text \<open>
  A pandas cell as the pipeline sees it after \<open>read_csv\<close>: an integer, a finite
  float (every finite float is a rational; the pipeline only compares floats and
  truncates them with \<open>int(x)\<close>), a string or a boolean. Missing values (NaN) are not
  part of the model. Characters stand for code points below 256.
\<close>

datatype cell = IntCell int | FloatCell rat | StrCell string | BoolCell bool

text \<open>\<open>BenchmarkError(message)\<close>: one constructor per message template of the source.\<close>

datatype message =
    NoCsvFiles
  | MissingInParams string "(string \<times> string) list"
  | PatternNonAlphanumeric string
  | RangeNotValid "string list"
  | PathDoesNotExist
  | ZeroResultsRead
  | ZeroAfterBenchmarks "string option"
  | ZeroAfterRange string

text \<open>What a KeyError names: a column label, a tuple of secondary values or a cell.\<close>

datatype key = LabelKey string | TupleKey "cell list" | CellKey cell

datatype error =
    BenchmarkError message
  | KeyError key
  | ValueError
  | TypeError
  | AttributeError
  | ReError
  | LibraryError

text \<open>
  A DataFrame: the column labels and the rows, each row holding one cell per column.
  \<open>iterrows\<close> yields each row as a Series, that is the cells labelled by the columns.
\<close>

record DataFrame =
  columns :: "string list"
  rows :: "cell list list"

type_synonym series = "(string \<times> cell) list"

definition iterrows :: "DataFrame \<Rightarrow> series list" where
  "iterrows df = map (zip (columns df)) (rows df)"

text \<open>\<open>len(dataframe)\<close>\<close>

definition len :: "DataFrame \<Rightarrow> nat" where
  "len df = length (rows df)"

text \<open>\<open>row[label]\<close> raises KeyError for an absent label.\<close>

definition getitem :: "series \<Rightarrow> string \<Rightarrow> error + cell" where
  "getitem row label = (case map_of row label of None \<Rightarrow> Inl (KeyError (LabelKey label)) | Some v \<Rightarrow> Inr v)"

text \<open>Running a fallible function over a list, stopping at the first exception.\<close>

fun traverse :: "('a \<Rightarrow> error + 'b) \<Rightarrow> 'a list \<Rightarrow> error + 'b list" where
  "traverse f [] = Inr []"
| "traverse f (x # xs) =
     (case f x of Inl e \<Rightarrow> Inl e
      | Inr y \<Rightarrow> (case traverse f xs of Inl e \<Rightarrow> Inl e | Inr ys \<Rightarrow> Inr (y # ys)))"

text \<open>\<open>dataframe[label]\<close>: the column as a sequence of cells, KeyError for an absent label.\<close>

definition get_column :: "DataFrame \<Rightarrow> string \<Rightarrow> error + cell list" where
  "get_column df label =
     (if label \<in> set (columns df) then traverse (\<lambda>row. getitem row label) (iterrows df)
      else Inl (KeyError (LabelKey label)))"

text \<open>\<open>dataframe[mask]\<close>: the rows whose mask entry is true, in order.\<close>

definition select_rows :: "DataFrame \<Rightarrow> bool list \<Rightarrow> DataFrame" where
  "select_rows df flags = df\<lparr>rows := map fst (filter snd (zip (rows df) flags))\<rparr>"

text \<open>A frame is well formed when every row has one cell per column (a pandas invariant).\<close>

definition wf_frame :: "DataFrame \<Rightarrow> bool" where
  "wf_frame df = list_all (\<lambda>r. length r = length (columns df)) (rows df)"

section \<open>Tabular loader: decimation\<close>

text \<open>\<open>df.iloc[::n, :]\<close>: the rows at positions 0, n, 2n, ...\<close>

fun iloc_step :: "nat \<Rightarrow> 'a list \<Rightarrow> 'a list" where
  "iloc_step n [] = []"
| "iloc_step n (x # xs) = x # iloc_step n (drop (n - 1) xs)"

text \<open>Line 77 of jmhplot.py: \<open>df = df.iloc[::9, :]\<close>.\<close>

definition decimate :: "DataFrame \<Rightarrow> DataFrame" where
  "decimate df = df\<lparr>rows := iloc_step 9 (rows df)\<rparr>"

section \<open>String primitives of Python used by the source\<close>

text \<open>\<open>s.split(sep)\<close> for a one-character separator: never empty, one more piece than
  there are separators.\<close>

fun str_split :: "char \<Rightarrow> string \<Rightarrow> string list" where
  "str_split sep [] = [[]]"
| "str_split sep (c # cs) =
     (if c = sep then [] # str_split sep cs
      else (case str_split sep cs of [] \<Rightarrow> [[c]] | w # ws \<Rightarrow> (c # w) # ws))"

text \<open>\<open>str.isspace\<close> on one character, which is also what \<open>\s\<close> of \<open>re\<close> tests
  (code points below 256).\<close>

definition isspace :: "char \<Rightarrow> bool" where
  "isspace c = ((of_char c :: nat) \<in> {9, 10, 11, 12, 13, 28, 29, 30, 31, 32, 133, 160})"

text \<open>\<open>s.strip()\<close>\<close>

definition str_strip :: "string \<Rightarrow> string" where
  "str_strip s = rev (dropWhile isspace (rev (dropWhile isspace s)))"

definition isdigit :: "char \<Rightarrow> bool" where
  "isdigit c = (48 \<le> (of_char c :: nat) \<and> (of_char c :: nat) \<le> 57)"

definition digit_value :: "char \<Rightarrow> int" where
  "digit_value c = int (of_char c) - 48"

text \<open>The digits of a decimal literal after the first one: single underscores are allowed
  between digits.\<close>

fun digits_acc :: "int \<Rightarrow> string \<Rightarrow> int option" where
  "digits_acc a [] = Some a"
| "digits_acc a (c # cs) =
     (if isdigit c then digits_acc (10 * a + digit_value c) cs
      else if c = CHR ''_'' then
        (case cs of [] \<Rightarrow> None
         | d # ds \<Rightarrow> if isdigit d then digits_acc (10 * a + digit_value d) ds else None)
      else None)"

definition parse_digits :: "string \<Rightarrow> int option" where
  "parse_digits s =
     (case s of [] \<Rightarrow> None
      | c # cs \<Rightarrow> if isdigit c then digits_acc (digit_value c) cs else None)"

text \<open>
  \<open>int(s)\<close> on a string; \<open>None\<close> stands for the ValueError. The whitespace that
  \<open>int\<close> skips before and after the literal is not that of \<open>strip\<close>: the
  separators U+001C to U+001F are not skipped. One sign is allowed. A literal with more
  than \<open>sys.int_info.default_max_str_digits\<close> digits is refused.
\<close>

definition int_space :: "char \<Rightarrow> bool" where
  "int_space c = ((of_char c :: nat) \<in> {9, 10, 11, 12, 13, 32, 133, 160})"

definition max_str_digits :: nat where
  "max_str_digits = 4300"

definition int_of_str :: "string \<Rightarrow> int option" where
  "int_of_str s =
     (case rev (dropWhile int_space (rev (dropWhile int_space s))) of
        [] \<Rightarrow> None
      | c # cs \<Rightarrow>
          (let body = (if c = CHR ''-'' \<or> c = CHR ''+'' then cs else c # cs) in
           if length (filter isdigit body) > max_str_digits then None
           else if c = CHR ''-'' then map_option uminus (parse_digits body)
           else parse_digits body))"

text \<open>\<open>int(x)\<close> on a cell: a float is truncated towards zero, a boolean is 0 or 1.\<close>

definition int_of_cell :: "cell \<Rightarrow> error + int" where
  "int_of_cell x =
     (case x of
        IntCell i \<Rightarrow> Inr i
      | FloatCell q \<Rightarrow> Inr (if 0 \<le> q then \<lfloor>q\<rfloor> else \<lceil>q\<rceil>)
      | StrCell s \<Rightarrow> (case int_of_str s of None \<Rightarrow> Inl ValueError | Some i \<Rightarrow> Inr i)
      | BoolCell b \<Rightarrow> Inr (if b then 1 else 0))"

text \<open>\<open>sys.maxsize\<close> of a 64-bit interpreter.\<close>

definition maxsize :: int where
  "maxsize = 2 ^ 63 - 1"

section \<open>Tabular loader\<close>

text \<open>\<open>df[label] = df[label].apply(f)\<close>: KeyError for an absent column, otherwise
  every cell of that column is replaced, stopping at the first exception of \<open>f\<close>.\<close>

definition apply_column :: "string \<Rightarrow> (cell \<Rightarrow> error + cell) \<Rightarrow> DataFrame \<Rightarrow> error + DataFrame" where
  "apply_column label f df =
     (if label \<notin> set (columns df) then Inl (KeyError (LabelKey label))
      else
        (case traverse
                (\<lambda>r. traverse (\<lambda>(l, v). if l = label then f v else Inr v) (zip (columns df) r))
                (rows df) of
           Inl e \<Rightarrow> Inl e
         | Inr rs \<Rightarrow> Inr (df\<lparr>rows := rs\<rparr>)))"

text \<open>\<open>lambda x: x.split('.')[-1]\<close>; only a string has \<open>split\<close>.\<close>

definition last_dot_segment :: "cell \<Rightarrow> error + cell" where
  "last_dot_segment x =
     (case x of StrCell s \<Rightarrow> Inr (StrCell (last (str_split CHR ''.'' s)))
      | _ \<Rightarrow> Inl AttributeError)"

text \<open>
  \<open>normalize_data_frame_from_path\<close>. The file system and pandas are parameters:
  \<open>files\<close> are the frames \<open>pd.read_csv\<close> gives for the csv files found at the
  path, in sorted order, and \<open>merge\<close> is \<open>pd.merge\<close>, which returns a frame or
  raises an exception of pandas (\<open>None\<close>, reported as \<open>LibraryError\<close>). The
  accumulator \<open>normalized\<close> starts as \<open>None\<close>.
\<close>

fun normalize_loop ::
  "(DataFrame \<Rightarrow> DataFrame \<Rightarrow> DataFrame option) \<Rightarrow> DataFrame option \<Rightarrow> DataFrame list
     \<Rightarrow> error + DataFrame option" where
  "normalize_loop merge normalized [] = Inr normalized"
| "normalize_loop merge normalized (file # files) =
     (case apply_column ''Benchmark'' last_dot_segment (decimate file) of
        Inl e \<Rightarrow> Inl e
      | Inr df \<Rightarrow>
          (case normalized of
             None \<Rightarrow> normalize_loop merge (Some df) files
           | Some n \<Rightarrow>
               (case merge n df of
                  None \<Rightarrow> Inl LibraryError
                | Some m \<Rightarrow> normalize_loop merge (Some m) files)))"

definition normalize_data_frame_from_path ::
  "(DataFrame \<Rightarrow> DataFrame \<Rightarrow> DataFrame option) \<Rightarrow> DataFrame list \<Rightarrow> error + DataFrame" where
  "normalize_data_frame_from_path merge files =
     (case normalize_loop merge None files of
        Inl e \<Rightarrow> Inl e
      | Inr None \<Rightarrow> Inl (BenchmarkError NoCsvFiles)
      | Inr (Some normalized) \<Rightarrow> Inr normalized)"

section \<open>Parameter extractor and splitter\<close>

text \<open>A Python dict is an association list in insertion order: \<open>AList.update\<close> overwrites
  in place or appends, \<open>AList.delete\<close> is \<open>del\<close>, \<open>map_of\<close> is the lookup.\<close>

type_synonym Params = "(string \<times> string) list"

record BMParams =
  primary :: Params
  secondary :: Params

fun extract_params_loop :: "Params \<Rightarrow> string list \<Rightarrow> Params" where
  "extract_params_loop params [] = params"
| "extract_params_loop params (column # cols) =
     (let fields = str_split CHR '':'' column in
      if length fields = 2 \<and> fields ! 0 = ''Param''
      then extract_params_loop (AList.update (str_strip (fields ! 1)) column params) cols
      else extract_params_loop params cols)"

definition extract_params :: "DataFrame \<Rightarrow> Params" where
  "extract_params dataframe = extract_params_loop [] (columns dataframe)"

text \<open>\<open>split_params\<close> deletes from the dict it is given: the model returns the dict as
  it is after the call together with the result.\<close>

definition split_params :: "Params \<Rightarrow> string \<Rightarrow> error + (BMParams \<times> Params)" where
  "split_params params primary_param_name =
     (case map_of params primary_param_name of
        None \<Rightarrow> Inl (BenchmarkError (MissingInParams primary_param_name params))
      | Some label \<Rightarrow>
          (let primary_params = [(primary_param_name, label)];
               params' = AList.delete primary_param_name params
           in Inr (\<lparr>primary = primary_params, secondary = params'\<rparr>, params')))"

section \<open>Grouping engine\<close>

record BMResult =
  r_value :: cell
  r_score :: cell
  r_error :: cell

type_synonym ResultSet = "(cell \<times> BMResult list) list"
type_synonym ResultSets = "(cell list \<times> ResultSet) list"

definition tuple_of_secondary_values :: "BMParams \<Rightarrow> series \<Rightarrow> error + cell list" where
  "tuple_of_secondary_values params row =
     traverse (\<lambda>(name, column). getitem row column) (secondary params)"

definition tuple_of_secondary_keys :: "BMParams \<Rightarrow> string list" where
  "tuple_of_secondary_keys params = map fst (secondary params)"

text \<open>Lines 130 and 131: the entry built for one primary column of a row.\<close>

definition result_point :: "series \<Rightarrow> string \<Rightarrow> error + BMResult" where
  "result_point row column =
     (case getitem row column of Inl e \<Rightarrow> Inl e | Inr v \<Rightarrow>
     (case getitem row ''Score'' of Inl e \<Rightarrow> Inl e | Inr s \<Rightarrow>
     (case getitem row ''Score Error (99.9%)'' of Inl e \<Rightarrow> Inl e | Inr er \<Rightarrow>
        Inr \<lparr>r_value = v, r_score = s, r_error = er\<rparr>)))"

text \<open>Lines 129 to 132: the loop over \<open>params.primary.items()\<close>, appending one entry
  per primary column to the bucket of the row.\<close>

fun primary_loop :: "series \<Rightarrow> cell list \<Rightarrow> ResultSets \<Rightarrow> Params \<Rightarrow> error + ResultSets" where
  "primary_loop row secondaryTuple resultSets [] = Inr resultSets"
| "primary_loop row secondaryTuple resultSets ((name, column) # rest) =
     (case result_point row column of Inl e \<Rightarrow> Inl e | Inr entry \<Rightarrow>
     (case map_of resultSets secondaryTuple of
        None \<Rightarrow> Inl (KeyError (TupleKey secondaryTuple))
      | Some resultSet \<Rightarrow>
     (case getitem row ''Benchmark'' of Inl e \<Rightarrow> Inl e | Inr bm \<Rightarrow>
     (case map_of resultSet bm of
        None \<Rightarrow> Inl (KeyError (CellKey bm))
      | Some results \<Rightarrow>
          primary_loop row secondaryTuple
            (AList.update secondaryTuple
               (AList.update bm (results @ [entry]) resultSet)
               resultSets)
            rest))))"

text \<open>Lines 124 to 132: the body of the loop over the rows.\<close>

definition group_row :: "BMParams \<Rightarrow> ResultSets \<Rightarrow> series \<Rightarrow> error + ResultSets" where
  "group_row params resultSets row =
     (case tuple_of_secondary_values params row of Inl e \<Rightarrow> Inl e | Inr secondaryTuple \<Rightarrow>
       (let rs1 = (if map_of resultSets secondaryTuple = None
                   then AList.update secondaryTuple [] resultSets else resultSets)
        in (case getitem row ''Benchmark'' of Inl e \<Rightarrow> Inl e | Inr bm \<Rightarrow>
           (case map_of rs1 secondaryTuple of
              None \<Rightarrow> Inl (KeyError (TupleKey secondaryTuple))
            | Some resultSet \<Rightarrow>
                (let rs2 = (if map_of resultSet bm = None
                            then AList.update secondaryTuple (AList.update bm [] resultSet) rs1
                            else rs1)
                 in primary_loop row secondaryTuple rs2 (primary params))))))"

fun extract_loop :: "BMParams \<Rightarrow> ResultSets \<Rightarrow> series list \<Rightarrow> error + ResultSets" where
  "extract_loop params resultSets [] = Inr resultSets"
| "extract_loop params resultSets (row # rest) =
     (case group_row params resultSets row of
        Inl e \<Rightarrow> Inl e
      | Inr resultSets' \<Rightarrow> extract_loop params resultSets' rest)"

definition extract_results_per_param :: "DataFrame \<Rightarrow> BMParams \<Rightarrow> error + ResultSets" where
  "extract_results_per_param dataframe params = extract_loop params [] (iterrows dataframe)"

section \<open>Row filters\<close>

subsection \<open>The regular expressions of the benchmark filter\<close>

text \<open>The class \<open>[A-Za-z0-9_\-+]\<close> of line 240.\<close>

definition allowed_char :: "char \<Rightarrow> bool" where
  "allowed_char c =
     (let n = (of_char c :: nat) in
      (65 \<le> n \<and> n \<le> 90) \<or> (97 \<le> n \<and> n \<le> 122) \<or> (48 \<le> n \<and> n \<le> 57)
      \<or> c = CHR ''_'' \<or> c = CHR ''-'' \<or> c = CHR ''+'')"

text \<open>\<open>pattern.match(report_bm) is None\<close> for that class: \<open>match\<close> tests the start of
  the string, so only the first character is looked at, and an empty string has none.\<close>

definition leading_char_allowed :: "string \<Rightarrow> bool" where
  "leading_char_allowed report_bm = (case report_bm of [] \<Rightarrow> False | c # cs \<Rightarrow> allowed_char c)"

text \<open>
  Line 247 hands the text \<open>\S*(s1|...|sn)\S*\<close> to \<open>re.compile\<close>, with the
  substrings as they are. The regular-expression library is a parameter of the model:
  an engine maps the text of a pattern to \<open>None\<close> when \<open>re.compile\<close> raises
  \<open>re.error\<close>, and otherwise to the test \<open>pattern.match(x) is not None\<close>.
\<close>

type_synonym regex_engine = "string \<Rightarrow> (string \<Rightarrow> bool) option"

text \<open>\<open>sep.join(parts)\<close>\<close>

fun str_join :: "string \<Rightarrow> string list \<Rightarrow> string" where
  "str_join sep [] = []"
| "str_join sep [x] = x"
| "str_join sep (x # y # ys) = x @ sep @ str_join sep (y # ys)"

text \<open>The pattern text of line 247: \<open>f'\S*({report_bms_translated})\S*'\<close>.\<close>

definition benchmark_pattern :: "string list \<Rightarrow> string" where
  "benchmark_pattern report_bms =
     [CHR 0x5C, CHR ''S'', CHR ''*'', CHR ''(''] @ str_join ''|'' report_bms
       @ [CHR '')'', CHR 0x5C, CHR ''S'', CHR ''*'']"

text \<open>The lambda of line 249; \<open>pattern.match\<close> raises TypeError on a cell that is not
  a string.\<close>

definition benchmark_matches :: "(string \<Rightarrow> bool) \<Rightarrow> cell \<Rightarrow> error + bool" where
  "benchmark_matches matches x =
     (case x of StrCell s \<Rightarrow> Inr (matches s) | _ \<Rightarrow> Inl TypeError)"

subsection \<open>Benchmark-name filter\<close>

text \<open>\<open>report_benchmarks\<close> may be \<open>None\<close>.\<close>

definition filter_for_benchmarks ::
  "regex_engine \<Rightarrow> DataFrame \<Rightarrow> string option \<Rightarrow> error + DataFrame" where
  "filter_for_benchmarks re_compile dataframe report_benchmarks =
     (case report_benchmarks of
        None \<Rightarrow> Inr dataframe
      | Some rb \<Rightarrow>
          if rb = [] then Inr dataframe
          else
            (let report_bms = str_split CHR '','' rb in
             (case find (\<lambda>report_bm. \<not> leading_char_allowed report_bm) report_bms of
                Some report_bm \<Rightarrow> Inl (BenchmarkError (PatternNonAlphanumeric report_bm))
              | None \<Rightarrow>
                  (case re_compile (benchmark_pattern report_bms) of
                     None \<Rightarrow> Inl ReError
                   | Some matches \<Rightarrow>
                       (case get_column dataframe ''Benchmark'' of
                          Inl e \<Rightarrow> Inl e
                        | Inr col \<Rightarrow>
                            (case traverse (benchmark_matches matches) col of
                               Inl e \<Rightarrow> Inl e
                             | Inr flags \<Rightarrow> Inr (select_rows dataframe flags)))))))"

subsection \<open>Numeric-range filter\<close>

text \<open>The lambda of line 271.\<close>

definition in_range :: "int \<Rightarrow> int \<Rightarrow> cell \<Rightarrow> error + bool" where
  "in_range low high x =
     (case int_of_cell x of Inl e \<Rightarrow> Inl e | Inr i \<Rightarrow> Inr (i \<ge> low \<and> i \<le> high))"

definition filter_for_range :: "DataFrame \<Rightarrow> string \<Rightarrow> string \<Rightarrow> error + DataFrame" where
  "filter_for_range dataframe primary_param_name select_range =
     (case str_split CHR ''<'' select_range of
        [from, to] \<Rightarrow>
          (case (if length from > 0 then int_of_str from else Some (- maxsize)) of
             None \<Rightarrow> Inl (BenchmarkError (RangeNotValid [from, to]))
           | Some low \<Rightarrow>
               (case (if length to > 0 then int_of_str to else Some maxsize) of
                  None \<Rightarrow> Inl (BenchmarkError (RangeNotValid [from, to]))
                | Some high \<Rightarrow>
                    if \<not> low \<le> high then Inl (BenchmarkError (RangeNotValid [from, to]))
                    else
                      (case get_column dataframe (''Param: '' @ primary_param_name) of
                         Inl e \<Rightarrow> Inl e
                       | Inr col \<Rightarrow>
                           (case traverse (in_range low high) col of
                              Inl e \<Rightarrow> Inl e
                            | Inr flags \<Rightarrow> Inr (select_rows dataframe flags)))))
      | _ \<Rightarrow> Inr dataframe)"

section \<open>Pipeline driver\<close>

text \<open>
  \<open>process_benchmarks\<close> up to its last line, the call of the renderer
  \<open>plot_all_results\<close>: the model returns the parameter split and the grouping the
  renderer is called with. \<open>path_exists\<close> is \<open>path.exists()\<close>; \<open>merge\<close> and
  \<open>files\<close> are as for the loader, \<open>re_compile\<close> as for the benchmark filter.
\<close>

definition process_benchmarks ::
  "regex_engine \<Rightarrow> (DataFrame \<Rightarrow> DataFrame \<Rightarrow> DataFrame option) \<Rightarrow> bool \<Rightarrow> DataFrame list
     \<Rightarrow> string \<Rightarrow> string option \<Rightarrow> string \<Rightarrow> error + (BMParams \<times> ResultSets)" where
  "process_benchmarks re_compile merge path_exists files primary_param_name report_benchmarks
       select_range =
     (if \<not> path_exists then Inl (BenchmarkError PathDoesNotExist)
      else
       (case normalize_data_frame_from_path merge files of Inl e \<Rightarrow> Inl e | Inr df0 \<Rightarrow>
        if len df0 = 0 then Inl (BenchmarkError ZeroResultsRead)
        else
       (case filter_for_benchmarks re_compile df0 report_benchmarks of Inl e \<Rightarrow> Inl e | Inr df1 \<Rightarrow>
        if len df1 = 0 then Inl (BenchmarkError (ZeroAfterBenchmarks report_benchmarks))
        else
       (case filter_for_range df1 primary_param_name select_range of Inl e \<Rightarrow> Inl e | Inr df2 \<Rightarrow>
        if len df2 = 0 then Inl (BenchmarkError (ZeroAfterRange select_range))
        else
       (case split_params (extract_params df2) primary_param_name of
          Inl e \<Rightarrow> Inl e
        | Inr (params, consumed) \<Rightarrow>
       (case extract_results_per_param df2 params of
          Inl e \<Rightarrow> Inl e
        | Inr resultSets \<Rightarrow> Inr (params, resultSets)))))))"

text \<open>The causes of the error taxonomy, read off the messages.\<close>

definition EmptyResult :: "error \<Rightarrow> bool" where
  "EmptyResult e =
     (case e of
        BenchmarkError ZeroResultsRead \<Rightarrow> True
      | BenchmarkError (ZeroAfterBenchmarks rb) \<Rightarrow> True
      | BenchmarkError (ZeroAfterRange r) \<Rightarrow> True
      | _ \<Rightarrow> False)"

definition InvalidRange :: "error \<Rightarrow> bool" where
  "InvalidRange e = (case e of BenchmarkError (RangeNotValid ft) \<Rightarrow> True | _ \<Rightarrow> False)"

definition InvalidBenchmarkPattern :: "error \<Rightarrow> bool" where
  "InvalidBenchmarkPattern e =
     (case e of BenchmarkError (PatternNonAlphanumeric bm) \<Rightarrow> True | _ \<Rightarrow> False)"

definition MissingPrimaryParameter :: "error \<Rightarrow> bool" where
  "MissingPrimaryParameter e =
     (case e of BenchmarkError (MissingInParams n ps) \<Rightarrow> True | _ \<Rightarrow> False)"

section \<open>Vocabulary of the statements, and concrete inputs\<close>

subsection \<open>The meaning of the patterns of a fragment\<close>

text \<open>
  The characters with a special meaning in a pattern of \<open>re\<close>; every other character
  matches itself.
\<close>

definition re_special :: "char \<Rightarrow> bool" where
  "re_special c = (c \<in> set ''.^$*+?{}[]|()'' \<or> c = CHR 0x5C)"

text \<open>
  The fragment: an alternative is a sequence of atoms, an atom is an ordinary character
  or \<open>.\<close> (any character but the newline), and an atom may be followed by one of
  \<open>+\<close>, \<open>*\<close>, \<open>?\<close>. Any other use of a special character is outside the
  fragment and is not described here.
\<close>

datatype re_atom = Lit char | AnyChar

datatype re_quant = Once | OneOrMore | ZeroOrMore | ZeroOrOne

definition atom_of :: "char \<Rightarrow> re_atom option" where
  "atom_of c = (if c = CHR ''.'' then Some AnyChar else if re_special c then None else Some (Lit c))"

definition quant_of :: "char \<Rightarrow> re_quant option" where
  "quant_of c =
     (if c = CHR ''+'' then Some OneOrMore
      else if c = CHR ''*'' then Some ZeroOrMore
      else if c = CHR ''?'' then Some ZeroOrOne
      else None)"

fun parse_items :: "string \<Rightarrow> (re_atom \<times> re_quant) list option" where
  "parse_items [] = Some []"
| "parse_items [c] = (case atom_of c of None \<Rightarrow> None | Some a \<Rightarrow> Some [(a, Once)])"
| "parse_items (c # d # cs) =
     (case atom_of c of
        None \<Rightarrow> None
      | Some a \<Rightarrow>
          (case quant_of d of
             Some q \<Rightarrow> map_option (\<lambda>items. (a, q) # items) (parse_items cs)
           | None \<Rightarrow> map_option (\<lambda>items. (a, Once) # items) (parse_items (d # cs))))"

fun atom_matches :: "re_atom \<Rightarrow> char \<Rightarrow> bool" where
  "atom_matches (Lit c) d = (d = c)"
| "atom_matches AnyChar d = (d \<noteq> CHR 0x0A)"

text \<open>Whether the items match some prefix of the text.\<close>

fun items_match :: "(re_atom \<times> re_quant) list \<Rightarrow> string \<Rightarrow> bool" where
  "items_match [] x = True"
| "items_match ((a, Once) # items) [] = False"
| "items_match ((a, Once) # items) (d # xs) = (atom_matches a d \<and> items_match items xs)"
| "items_match ((a, OneOrMore) # items) [] = False"
| "items_match ((a, OneOrMore) # items) (d # xs) =
     (atom_matches a d \<and> (items_match items xs \<or> items_match ((a, OneOrMore) # items) xs))"
| "items_match ((a, ZeroOrMore) # items) [] = items_match items []"
| "items_match ((a, ZeroOrMore) # items) (d # xs) =
     (items_match items (d # xs) \<or> (atom_matches a d \<and> items_match ((a, ZeroOrMore) # items) xs))"
| "items_match ((a, ZeroOrOne) # items) [] = items_match items []"
| "items_match ((a, ZeroOrOne) # items) (d # xs) =
     (items_match items (d # xs) \<or> (atom_matches a d \<and> items_match items xs))"

text \<open>
  \<open>pattern.match(x) is not None\<close> for \<open>\S*(a1|...|an)\S*\<close>: the match starts at the
  start of \<open>x\<close>, the leading \<open>\S*\<close> takes some run of non-whitespace characters,
  then one alternative has to match, and the trailing \<open>\S*\<close> may match nothing.
\<close>

fun re_match :: "(re_atom \<times> re_quant) list list \<Rightarrow> string \<Rightarrow> bool" where
  "re_match alts [] = list_ex (\<lambda>a. items_match a []) alts"
| "re_match alts (c # cs) =
     (list_ex (\<lambda>a. items_match a (c # cs)) alts \<or> (\<not> isspace c \<and> re_match alts cs))"

text \<open>The text between \<open>\S*(\<close> and \<open>)\S*\<close>, for a pattern of that shape.\<close>

definition pattern_body :: "string \<Rightarrow> string option" where
  "pattern_body pattern =
     (if 8 \<le> length pattern
         \<and> take 4 pattern = [CHR 0x5C, CHR ''S'', CHR ''*'', CHR ''('']
         \<and> drop (length pattern - 4) pattern = [CHR '')'', CHR 0x5C, CHR ''S'', CHR ''*'']
      then Some (take (length pattern - 8) (drop 4 pattern))
      else None)"

text \<open>
  An engine that is \<open>re\<close> on the patterns \<open>\S*(a1|...|an)\S*\<close> whose alternatives
  are in the fragment. What it answers on any other pattern (\<open>None\<close>) is arbitrary:
  the statements below use it on patterns of the fragment only.
\<close>

definition fragment_engine :: regex_engine where
  "fragment_engine pattern =
     (case pattern_body pattern of
        None \<Rightarrow> None
      | Some body \<Rightarrow>
          (case those (map parse_items (str_split CHR ''|'' body)) of
             None \<Rightarrow> None
           | Some alts \<Rightarrow> Some (re_match alts)))"

definition two_params :: Params where
  "two_params = [(''valueSize'', ''Param: valueSize''), (''checksum'', ''Param: checksum'')]"

text \<open>The test of line 95 and the key of line 96, named for the statements below.\<close>

definition is_param_column :: "string \<Rightarrow> bool" where
  "is_param_column column =
     (let fields = str_split CHR '':'' column in length fields = 2 \<and> fields ! 0 = ''Param'')"

definition param_name :: "string \<Rightarrow> string" where
  "param_name column = str_strip (str_split CHR '':'' column ! 1)"

text \<open>
  The test as the specification words it: the label splits on \<open>:\<close> into exactly two
  non-empty parts and the first part, trimmed, is \<open>Param\<close>.
\<close>

definition spec_qualifies :: "string \<Rightarrow> bool" where
  "spec_qualifies label =
     (case str_split CHR '':'' label of
        [a, b] \<Rightarrow> a \<noteq> [] \<and> b \<noteq> [] \<and> str_strip a = ''Param''
      | _ \<Rightarrow> False)"

text \<open>The bounds of lines 258 to 264 and the test of line 271 on a row, named for the
  statements below.\<close>

definition lower_bound :: "string \<Rightarrow> int option" where
  "lower_bound from = (if length from > 0 then int_of_str from else Some (- maxsize))"

definition upper_bound :: "string \<Rightarrow> int option" where
  "upper_bound to = (if length to > 0 then int_of_str to else Some maxsize)"

definition row_in_range :: "string list \<Rightarrow> string \<Rightarrow> int \<Rightarrow> int \<Rightarrow> cell list \<Rightarrow> bool" where
  "row_in_range cols label low high row =
     (case getitem (zip cols row) label of
        Inl e \<Rightarrow> False
      | Inr x \<Rightarrow> (case int_of_cell x of Inl e \<Rightarrow> False | Inr i \<Rightarrow> low \<le> i \<and> i \<le> high))"

definition coercible :: "string list \<Rightarrow> string \<Rightarrow> cell list \<Rightarrow> bool" where
  "coercible cols label row =
     (case getitem (zip cols row) label of
        Inl e \<Rightarrow> False
      | Inr x \<Rightarrow> (case int_of_cell x of Inl e \<Rightarrow> False | Inr i \<Rightarrow> True))"

text \<open>
  Row selection as the specification words it: an empty left side is the lower bound
  minus infinity, an empty right side the upper bound plus infinity.
\<close>

definition spec_range_keeps :: "string \<Rightarrow> string \<Rightarrow> int \<Rightarrow> bool" where
  "spec_range_keeps from to v =
     ((from = [] \<or> (case int_of_str from of None \<Rightarrow> False | Some lo \<Rightarrow> lo \<le> v))
      \<and> (to = [] \<or> (case int_of_str to of None \<Rightarrow> False | Some hi \<Rightarrow> v \<le> hi)))"

definition sizes_frame :: "cell list \<Rightarrow> DataFrame" where
  "sizes_frame sizes =
     \<lparr>columns = [''Benchmark'', ''Score'', ''Score Error (99.9%)'', ''Param: valueSize''],
      rows = map (\<lambda>v. [StrCell ''getBytes'', FloatCell (241 / 2), FloatCell (16 / 5), v]) sizes\<rparr>"

text \<open>A substring occurs in a name at a position that only non-whitespace characters
  precede.\<close>

definition occurs_unspaced :: "string \<Rightarrow> string \<Rightarrow> bool" where
  "occurs_unspaced s name = (\<exists>p t. name = p @ s @ t \<and> list_all (\<lambda>c. \<not> isspace c) p)"

definition has_benchmark_name :: "string list \<Rightarrow> cell list \<Rightarrow> bool" where
  "has_benchmark_name cols row =
     (case getitem (zip cols row) ''Benchmark'' of Inr (StrCell name) \<Rightarrow> True | _ \<Rightarrow> False)"

text \<open>The failure condition of the validation as the specification words it: the first
  character of the substring is outside the allowed class.\<close>

definition spec_first_char_outside :: "string \<Rightarrow> bool" where
  "spec_first_char_outside s = (case s of [] \<Rightarrow> False | c # cs \<Rightarrow> \<not> allowed_char c)"

definition names_frame :: "string list \<Rightarrow> DataFrame" where
  "names_frame names =
     \<lparr>columns = [''Benchmark'', ''Score'', ''Score Error (99.9%)'', ''Param: valueSize''],
      rows = map (\<lambda>n. [StrCell n, FloatCell (241 / 2), FloatCell (16 / 5), IntCell 64]) names\<rparr>"

text \<open>Reading a grouping: the bucket of a secondary key and a benchmark, if there is
  one, and the number of points in all buckets.\<close>

definition bucket_of :: "ResultSets \<Rightarrow> cell list \<Rightarrow> cell \<Rightarrow> BMResult list option" where
  "bucket_of G k b = (case map_of G k of None \<Rightarrow> None | Some rs \<Rightarrow> map_of rs b)"

definition group_size :: "ResultSet \<Rightarrow> nat" where
  "group_size rs = sum_list (map (\<lambda>p. length (snd p)) rs)"

definition total_points :: "ResultSets \<Rightarrow> nat" where
  "total_points G = sum_list (map (\<lambda>p. group_size (snd p)) G)"

text \<open>What one row contributes: its secondary key, its benchmark and its points, in the
  order in which the loop body reads them.\<close>

definition row_entry :: "BMParams \<Rightarrow> series \<Rightarrow> error + (cell list \<times> cell \<times> BMResult list)" where
  "row_entry params row =
     (case tuple_of_secondary_values params row of Inl e \<Rightarrow> Inl e | Inr k \<Rightarrow>
     (case getitem row ''Benchmark'' of Inl e \<Rightarrow> Inl e | Inr b \<Rightarrow>
     (case traverse (\<lambda>(name, column). result_point row column) (primary params) of
        Inl e \<Rightarrow> Inl e
      | Inr pts \<Rightarrow> Inr (k, b, pts))))"

definition in_bucket :: "BMParams \<Rightarrow> cell list \<Rightarrow> cell \<Rightarrow> series \<Rightarrow> bool" where
  "in_bucket params k b row =
     (tuple_of_secondary_values params row = Inr k \<and> getitem row ''Benchmark'' = Inr b)"

definition points_of :: "BMParams \<Rightarrow> series \<Rightarrow> BMResult list" where
  "points_of params row =
     (case traverse (\<lambda>(name, column). result_point row column) (primary params) of
        Inl e \<Rightarrow> []
      | Inr pts \<Rightarrow> pts)"

text \<open>The effect of the loop body on the grouping, given what the row contributes.\<close>

definition add_points :: "ResultSets \<Rightarrow> cell list \<Rightarrow> cell \<Rightarrow> BMResult list \<Rightarrow> ResultSets" where
  "add_points G k b pts =
     (let rs = (case map_of G k of None \<Rightarrow> [] | Some rs \<Rightarrow> rs);
          old = (case map_of rs b of None \<Rightarrow> [] | Some xs \<Rightarrow> xs)
      in AList.update k (AList.update b (old @ pts) rs) G)"

fun add_all :: "ResultSets \<Rightarrow> (cell list \<times> cell \<times> BMResult list) list \<Rightarrow> ResultSets" where
  "add_all G [] = G"
| "add_all G ((k, b, pts) # es) = add_all (add_points G k b pts) es"

definition grouping_frame :: DataFrame where
  "grouping_frame =
     \<lparr>columns = [''Benchmark'', ''Score'', ''Score Error (99.9%)'', ''Param: valueSize'', ''Param: checksum''],
      rows = [[StrCell ''GetDirect'', FloatCell (241 / 2), FloatCell (16 / 5), IntCell 64, BoolCell True],
              [StrCell ''GetByte'', FloatCell 100, FloatCell 1, IntCell 64, BoolCell True],
              [StrCell ''GetDirect'', FloatCell 50, FloatCell 2, IntCell 8, BoolCell True],
              [StrCell ''GetDirect'', FloatCell 70, FloatCell 3, IntCell 128, BoolCell False]]\<rparr>"

definition grouping_params :: BMParams where
  "grouping_params =
     \<lparr>primary = [(''valueSize'', ''Param: valueSize'')],
      secondary = [(''checksum'', ''Param: checksum'')]\<rparr>"

definition grouping_result :: ResultSets where
  "grouping_result =
     [([BoolCell True],
       [(StrCell ''GetDirect'',
         [\<lparr>r_value = IntCell 64, r_score = FloatCell (241 / 2), r_error = FloatCell (16 / 5)\<rparr>,
          \<lparr>r_value = IntCell 8, r_score = FloatCell 50, r_error = FloatCell 2\<rparr>]),
        (StrCell ''GetByte'',
         [\<lparr>r_value = IntCell 64, r_score = FloatCell 100, r_error = FloatCell 1\<rparr>])]),
      ([BoolCell False],
       [(StrCell ''GetDirect'',
         [\<lparr>r_value = IntCell 128, r_score = FloatCell 70, r_error = FloatCell 3\<rparr>])])]"

definition sizes_params :: BMParams where
  "sizes_params = \<lparr>primary = [(''valueSize'', ''Param: valueSize'')], secondary = []\<rparr>"

definition sizes_result :: ResultSets where
  "sizes_result =
     [([],
       [(StrCell ''getBytes'',
         [\<lparr>r_value = IntCell 64, r_score = FloatCell (241 / 2), r_error = FloatCell (16 / 5)\<rparr>,
          \<lparr>r_value = IntCell 8, r_score = FloatCell (241 / 2), r_error = FloatCell (16 / 5)\<rparr>])])]"

text \<open>A merge for runs over a single file, where \<open>pd.merge\<close> is never called.\<close>

definition no_merge :: "DataFrame \<Rightarrow> DataFrame \<Rightarrow> DataFrame option" where
  "no_merge a b = None"

text \<open>The row test of the benchmark filter for a compiled pattern.\<close>

definition pattern_kept :: "string list \<Rightarrow> (string \<Rightarrow> bool) \<Rightarrow> cell list \<Rightarrow> bool" where
  "pattern_kept cols matches row =
     (case getitem (zip cols row) ''Benchmark'' of
        Inr (StrCell name) \<Rightarrow> matches name
      | _ \<Rightarrow> False)"

text \<open>What line 78 makes of a row: the Benchmark cell is replaced by its last
  dot-delimited segment, the other cells stay.\<close>

definition benchmark_rewritten :: "string list \<Rightarrow> cell list \<Rightarrow> cell list \<Rightarrow> bool" where
  "benchmark_rewritten cols row row' =
     (traverse (\<lambda>(l, v). if l = ''Benchmark'' then last_dot_segment v else Inr v) (zip cols row)
        = Inr row')"


section \<open>Properties\<close>

subsection \<open>Splitting strings\<close>

lemma str_split_not_Nil: "str_split sep s \<noteq> []"
  by (induction s) (auto split: list.splits)

lemma str_split_no_sep: "sep \<notin> set s \<Longrightarrow> str_split sep s = [s]"
  by (induction s) auto

lemma str_split_append_sep:
  "sep \<notin> set a \<Longrightarrow> str_split sep (a @ sep # b) = a # str_split sep b"
  by (induction a) (auto split: list.splits)

lemma length_str_split: "length (str_split sep s) = Suc (count_list s sep)"
  by (induction s) (auto split: list.splits)

lemma str_split_two_iff:
  "str_split sep s = [a, b] \<longleftrightarrow> s = a @ sep # b \<and> sep \<notin> set a \<and> sep \<notin> set b"
proof
  assume "str_split sep s = [a, b]"
  then show "s = a @ sep # b \<and> sep \<notin> set a \<and> sep \<notin> set b"
  proof (induction s arbitrary: a)
    case Nil
    then show ?case by simp
  next
    case (Cons c s)
    show ?case
    proof (cases "c = sep")
      case True
      with Cons.prems have a: "a = []" and sp: "str_split sep s = [b]" by auto
      have "count_list s sep = 0"
        using length_str_split[of sep s] sp by simp
      then have nb: "sep \<notin> set s" by (simp add: count_list_0_iff)
      then have "b = s" using sp by (simp add: str_split_no_sep)
      with True a nb show ?thesis by simp
    next
      case False
      with Cons.prems obtain w where w: "str_split sep s = [w, b]" and a: "a = c # w"
        by (auto split: list.splits)
      from Cons.IH[OF w] False a show ?thesis by simp
    qed
  qed
next
  assume "s = a @ sep # b \<and> sep \<notin> set a \<and> sep \<notin> set b"
  then show "str_split sep s = [a, b]"
    by (simp add: str_split_append_sep str_split_no_sep)
qed

lemma length_two_iff: "length xs = 2 \<longleftrightarrow> (\<exists>a b. xs = [a, b])"
  by (cases xs rule: list.exhaust; simp add: length_Suc_conv)

subsection \<open>Running over lists, columns and row selection\<close>

lemma traverse_Inr_iff: "traverse f xs = Inr ys \<longleftrightarrow> list_all2 (\<lambda>x y. f x = Inr y) xs ys"
proof
  show "traverse f xs = Inr ys \<Longrightarrow> list_all2 (\<lambda>x y. f x = Inr y) xs ys"
    by (induction xs arbitrary: ys) (auto split: sum.splits)
  show "list_all2 (\<lambda>x y. f x = Inr y) xs ys \<Longrightarrow> traverse f xs = Inr ys"
    by (induction xs ys rule: list_all2_induct) auto
qed

lemma traverse_total: "(\<exists>ys. traverse f xs = Inr ys) \<longleftrightarrow> (\<forall>x\<in>set xs. \<exists>y. f x = Inr y)"
proof (induction xs)
  case Nil
  show ?case by simp
next
  case (Cons x xs)
  then show ?case by (auto split: sum.splits)
qed

lemma get_column_Inr_iff:
  "get_column df label = Inr col \<longleftrightarrow>
     label \<in> set (columns df)
     \<and> list_all2 (\<lambda>row x. getitem (zip (columns df) row) label = Inr x) (rows df) col"
  by (simp add: get_column_def traverse_Inr_iff iterrows_def list_all2_map1)

lemma traverse_column:
  assumes "list_all2 (\<lambda>row x. g row = Inr x) rs col"
  shows "traverse f col = Inr flags \<longleftrightarrow>
           list_all2 (\<lambda>row b. \<exists>x. g row = Inr x \<and> f x = Inr b) rs flags"
proof -
  have "list_all2 (\<lambda>x b. f x = Inr b) col flags \<longleftrightarrow>
          list_all2 (\<lambda>row b. \<exists>x. g row = Inr x \<and> f x = Inr b) rs flags"
    using assms
  proof (induction rs col arbitrary: flags rule: list_all2_induct)
    case Nil
    show ?case by auto
  next
    case (Cons r rs x col)
    show ?case
      using Cons.hyps(1) by (cases flags) (auto simp: Cons.IH)
  qed
  then show ?thesis by (simp add: traverse_Inr_iff)
qed

lemma select_by_predicate:
  assumes "list_all2 (\<lambda>row b. b = P row) rs flags"
  shows "map fst (filter snd (zip rs flags)) = filter P rs"
  using assms by (induction rs flags rule: list_all2_induct) auto

subsection \<open>Tabular loader: decimation\<close>

lemma length_iloc_step: "length (iloc_step 9 xs) = (length xs + 8) div 9"
  by (induction "9::nat" xs rule: iloc_step.induct) auto




lemma benchmark_rewritten_cells:
  assumes "benchmark_rewritten cols row row'" and "length row = length cols"
  shows "length row' = length row"
    and "\<forall>j<length row. cols ! j \<noteq> ''Benchmark'' \<longrightarrow> row' ! j = row ! j"
    and "\<forall>j<length row. cols ! j = ''Benchmark'' \<longrightarrow> last_dot_segment (row ! j) = Inr (row' ! j)"
proof -
  from assms(1) have l2: "list_all2
      (\<lambda>lv y. (case lv of (l, v) \<Rightarrow> if l = ''Benchmark'' then last_dot_segment v else Inr v) = Inr y)
      (zip cols row) row'"
    by (simp add: benchmark_rewritten_def traverse_Inr_iff)
  have len: "length row' = length (zip cols row)"
    using list_all2_lengthD[OF l2] by simp
  with assms(2) show "length row' = length row" by simp
  have nth: "(case zip cols row ! j of (l, v) \<Rightarrow> if l = ''Benchmark'' then last_dot_segment v else Inr v)
      = Inr (row' ! j)" if "j < length row" for j
    using l2 that assms(2) by (simp add: list_all2_conv_all_nth)
  show "\<forall>j<length row. cols ! j \<noteq> ''Benchmark'' \<longrightarrow> row' ! j = row ! j"
  proof (intro allI impI)
    fix j assume "j < length row" "cols ! j \<noteq> ''Benchmark''"
    with nth[of j] assms(2) show "row' ! j = row ! j" by simp
  qed
  show "\<forall>j<length row. cols ! j = ''Benchmark'' \<longrightarrow> last_dot_segment (row ! j) = Inr (row' ! j)"
  proof (intro allI impI)
    fix j assume "j < length row" "cols ! j = ''Benchmark''"
    with nth[of j] assms(2) show "last_dot_segment (row ! j) = Inr (row' ! j)" by simp
  qed
qed

lemma load_single_file:
  "normalize_data_frame_from_path merge [f] =
     apply_column ''Benchmark'' last_dot_segment (decimate f)"
  by (cases "apply_column ''Benchmark'' last_dot_segment (decimate f)")
     (simp_all add: normalize_data_frame_from_path_def)




text \<open>The loader returns on a single file that has a Benchmark column of strings.\<close>

lemma set_iloc_step: "set (iloc_step n xs) \<subseteq> set xs"
proof (induction n xs rule: iloc_step.induct)
  case (1 n)
  show ?case by simp
next
  case (2 n x xs)
  have "set (drop (n - 1) xs) \<subseteq> set xs"
    by (rule set_drop_subset)
  with 2 show ?case by auto
qed

lemma load_single_returns:
  assumes c: "''Benchmark'' \<in> set (columns f)"
    and s: "\<forall>row\<in>set (rows f). \<forall>(l, v)\<in>set (zip (columns f) row).
              l = ''Benchmark'' \<longrightarrow> (\<exists>name. v = StrCell name)"
  shows "\<exists>df. normalize_data_frame_from_path merge [f] = Inr df"
proof -
  let ?g = "\<lambda>(l, v). if l = ''Benchmark'' then last_dot_segment v else Inr v"
  have cell: "\<exists>y. ?g lv = Inr y" if "row \<in> set (rows f)" "lv \<in> set (zip (columns f) row)" for row lv
  proof (cases lv)
    case (Pair l v)
    show ?thesis
    proof (cases "l = ''Benchmark''")
      case True
      from s that Pair have "l = ''Benchmark'' \<longrightarrow> (\<exists>name. v = StrCell name)"
        by blast
      with True obtain name where "v = StrCell name"
        by blast
      with True Pair show ?thesis
        by (simp add: last_dot_segment_def)
    next
      case False
      with Pair show ?thesis by simp
    qed
  qed
  have "\<exists>y. traverse ?g (zip (columns f) row) = Inr y" if "row \<in> set (rows (decimate f))" for row
  proof -
    from that set_iloc_step[of 9 "rows f"] have "row \<in> set (rows f)"
      by (auto simp: decimate_def)
    with cell show ?thesis
      unfolding traverse_total by blast
  qed
  then have "\<exists>rs. traverse (\<lambda>r. traverse ?g (zip (columns f) r)) (rows (decimate f)) = Inr rs"
    unfolding traverse_total[of "\<lambda>r. traverse ?g (zip (columns f) r)"] by blast
  then obtain rs where "traverse (\<lambda>r. traverse ?g (zip (columns f) r)) (rows (decimate f)) = Inr rs"
    by blast
  moreover have "columns (decimate f) = columns f"
    by (simp add: decimate_def)
  ultimately have "apply_column ''Benchmark'' last_dot_segment (decimate f)
      = Inr ((decimate f)\<lparr>rows := rs\<rparr>)"
    using c by (simp add: apply_column_def)
  then show ?thesis
    by (simp add: load_single_file)
qed



subsection \<open>Parameter splitter\<close>

text \<open>
  C4. \<open>split_params\<close> fails, with the missing-primary-parameter error, exactly when
  the name is not a key of the map. Otherwise the primary mapping is the one entry of
  that name, the secondary mapping is the rest in its order, the two have no key in
  common and together are the original map, and the map the caller passed in is left
  as the secondary mapping: it no longer contains the name.
\<close>

theorem split_params_partition:
  "((\<exists>e. split_params params n = Inl e) \<longleftrightarrow> n \<notin> fst ` set params)
   \<and> (\<forall>e. split_params params n = Inl e \<longrightarrow> MissingPrimaryParameter e)
   \<and> (\<forall>bp params'. split_params params n = Inr (bp, params') \<longrightarrow>
        (\<exists>label. primary bp = [(n, label)] \<and> map_of params n = Some label)
        \<and> secondary bp = filter (\<lambda>p. fst p \<noteq> n) params
        \<and> fst ` set (primary bp) \<inter> fst ` set (secondary bp) = {}
        \<and> map_of (primary bp) ++ map_of (secondary bp) = map_of params
        \<and> params' = secondary bp
        \<and> n \<notin> fst ` set params')"
proof (cases "map_of params n")
  case None
  then have "split_params params n = Inl (BenchmarkError (MissingInParams n params))"
    by (simp add: split_params_def)
  moreover have "n \<notin> fst ` set params"
    using None by (simp add: map_of_eq_None_iff)
  ultimately show ?thesis
    by (simp add: MissingPrimaryParameter_def)
next
  case (Some label)
  then have mem: "n \<in> fst ` set params"
    by (metis map_of_eq_None_iff option.distinct(1))
  have del: "AList.delete n params = filter (\<lambda>p. fst p \<noteq> n) params"
    by (auto simp: AList.delete_eq intro: filter_cong)
  have un: "[n \<mapsto> label] ++ map_of (AList.delete n params) = map_of params"
  proof
    fix k
    show "([n \<mapsto> label] ++ map_of (AList.delete n params)) k = map_of params k"
      using Some by (cases "k = n") (auto simp: map_add_def AList.delete_conv' split: option.splits)
  qed
  have notin: "n \<notin> fst ` set (AList.delete n params)"
    by (rule AList.delete_notin_dom)
  have res: "split_params params n
      = Inr (\<lparr>primary = [(n, label)], secondary = AList.delete n params\<rparr>, AList.delete n params)"
    using Some by (simp add: split_params_def Let_def)
  show ?thesis
    unfolding res using Some mem un notin del by auto
qed

theorem split_params_partition_witness:
  "split_params two_params ''valueSize''
     = Inr (\<lparr>primary = [(''valueSize'', ''Param: valueSize'')],
               secondary = [(''checksum'', ''Param: checksum'')]\<rparr>,
            [(''checksum'', ''Param: checksum'')])
   \<and> ''valueSize'' \<notin> fst ` set [(''checksum'', ''Param: checksum'')]
   \<and> (\<exists>e. split_params two_params ''size'' = Inl e \<and> MissingPrimaryParameter e)"
  using split_params_partition [of two_params "''valueSize''"]
    split_params_partition [of two_params "''size''"]
  by (simp add: two_params_def split_params_def MissingPrimaryParameter_def Let_def)

subsection \<open>Parameter extractor\<close>

lemma is_param_column_iff:
  "is_param_column c \<longleftrightarrow> (\<exists>rest. c = ''Param:'' @ rest \<and> CHR '':'' \<notin> set rest)"
proof
  assume "is_param_column c"
  then have l: "length (str_split CHR '':'' c) = 2" and f: "str_split CHR '':'' c ! 0 = ''Param''"
    by (simp_all add: is_param_column_def Let_def)
  from l obtain a b where ab: "str_split CHR '':'' c = [a, b]"
    by (auto simp: length_two_iff)
  with f have "a = ''Param''" by simp
  with ab show "\<exists>rest. c = ''Param:'' @ rest \<and> CHR '':'' \<notin> set rest"
    by (auto simp: str_split_two_iff)
next
  assume "\<exists>rest. c = ''Param:'' @ rest \<and> CHR '':'' \<notin> set rest"
  then obtain rest where c: "c = ''Param'' @ CHR '':'' # rest" and r: "CHR '':'' \<notin> set rest"
    by auto
  have "str_split CHR '':'' c = [''Param'', rest]"
    unfolding str_split_two_iff using c r by simp
  then show "is_param_column c"
    by (simp add: is_param_column_def)
qed

lemma param_name_rest:
  assumes "CHR '':'' \<notin> set rest"
  shows "param_name (''Param:'' @ rest) = str_strip rest"
proof -
  have "str_split CHR '':'' (''Param'' @ CHR '':'' # rest) = [''Param'', rest]"
    unfolding str_split_two_iff using assms by simp
  then show ?thesis by (simp add: param_name_def)
qed

lemma extract_params_loop_step:
  "extract_params_loop params (column # cols) =
     extract_params_loop
       (if is_param_column column then AList.update (param_name column) column params else params) cols"
  by (simp add: is_param_column_def param_name_def Let_def)

lemma map_of_extract_params_loop:
  "map_of (extract_params_loop params cols) k =
     (case filter (\<lambda>c. is_param_column c \<and> param_name c = k) cols of
        [] \<Rightarrow> map_of params k
      | c # cs \<Rightarrow> Some (last (c # cs)))"
proof (induction cols arbitrary: params)
  case Nil
  show ?case by simp
next
  case (Cons c cols)
  show ?case
    unfolding extract_params_loop_step Cons.IH
    by (auto simp: AList.update_conv' split: list.splits)
qed

text \<open>
  C5 (as the code has it). \<open>extract_params\<close> never fails. A column label is a
  parameter exactly when it is \<open>Param:\<close> followed by a rest without a further colon:
  the first part is compared untrimmed, and the rest may be empty. The key is the rest,
  trimmed, the value is the label; when several labels give the same key the last
  column wins. A frame without such a label gives the empty mapping.
\<close>

theorem extract_params_entries:
  "map_of (extract_params df) k =
     (case filter (\<lambda>c. is_param_column c \<and> param_name c = k) (columns df) of
        [] \<Rightarrow> None
      | c # cs \<Rightarrow> Some (last (c # cs)))
   \<and> (is_param_column c \<longleftrightarrow> (\<exists>rest. c = ''Param:'' @ rest \<and> CHR '':'' \<notin> set rest))
   \<and> (CHR '':'' \<notin> set rest \<longrightarrow> param_name (''Param:'' @ rest) = str_strip rest)"
  using is_param_column_iff[of c] param_name_rest[of rest]
  by (simp add: extract_params_def map_of_extract_params_loop split: list.splits)

theorem extract_params_entries_witness:
  "CHR '':'' \<notin> set '' valueSize''
   \<and> param_name ''Param: valueSize'' = ''valueSize''
   \<and> is_param_column ''Param: valueSize''
   \<and> map_of (extract_params \<lparr>columns = [''Benchmark'', ''Param: valueSize''], rows = []\<rparr>) ''valueSize''
       = Some ''Param: valueSize''"
  using extract_params_entries [of "\<lparr>columns = [''Benchmark'', ''Param: valueSize''], rows = []\<rparr>"
     "''valueSize''" "''Param: valueSize''" "'' valueSize''"]
  by (simp add: is_param_column_def param_name_def str_strip_def isspace_def)

theorem extract_params_counterexample:
  "extract_params \<lparr>columns = [''Param:''], rows = []\<rparr> = [('''', ''Param:'')]
   \<and> \<not> spec_qualifies ''Param:''
   \<and> extract_params \<lparr>columns = ['' Param: x''], rows = []\<rparr> = []
   \<and> spec_qualifies '' Param: x''"
  by (simp add: extract_params_def spec_qualifies_def str_strip_def isspace_def)

subsection \<open>Numeric-range filter\<close>

lemma filter_for_range_no_filter:
  "count_list select_range CHR ''<'' \<noteq> 1 \<Longrightarrow> filter_for_range df p select_range = Inr df"
proof -
  assume "count_list select_range CHR ''<'' \<noteq> 1"
  then have "length (str_split CHR ''<'' select_range) \<noteq> 2"
    by (simp add: length_str_split)
  then have "\<nexists>a b. str_split CHR ''<'' select_range = [a, b]"
    by (simp add: length_two_iff)
  then show ?thesis
    by (auto simp: filter_for_range_def split: list.splits)
qed

lemma filter_for_range_sides:
  assumes "str_split CHR ''<'' select_range = [from, to]"
  shows "filter_for_range df p select_range =
     (case lower_bound from of
        None \<Rightarrow> Inl (BenchmarkError (RangeNotValid [from, to]))
      | Some low \<Rightarrow>
          (case upper_bound to of
             None \<Rightarrow> Inl (BenchmarkError (RangeNotValid [from, to]))
           | Some high \<Rightarrow>
               if \<not> low \<le> high then Inl (BenchmarkError (RangeNotValid [from, to]))
               else
                 (case get_column df (''Param: '' @ p) of
                    Inl e \<Rightarrow> Inl e
                  | Inr col \<Rightarrow>
                      (case traverse (in_range low high) col of
                         Inl e \<Rightarrow> Inl e
                       | Inr flags \<Rightarrow> Inr (select_rows df flags)))))"
  by (simp only: filter_for_range_def lower_bound_def upper_bound_def assms list.case)

lemma in_range_flags:
  assumes col: "list_all2 (\<lambda>row x. getitem (zip cols row) label = Inr x) rs col"
    and fl: "traverse (in_range low high) col = Inr flags"
  shows "map fst (filter snd (zip rs flags)) = filter (row_in_range cols label low high) rs"
proof -
  have "list_all2 (\<lambda>row b. \<exists>x. getitem (zip cols row) label = Inr x \<and> in_range low high x = Inr b)
          rs flags"
    by (rule traverse_column[OF col, THEN iffD1, OF fl])
  moreover have "b = row_in_range cols label low high row"
    if "\<exists>x. getitem (zip cols row) label = Inr x \<and> in_range low high x = Inr b" for row b
  proof -
    from that obtain x where gx: "getitem (zip cols row) label = Inr x"
      and ir: "in_range low high x = Inr b" by blast
    show ?thesis
      using gx ir by (cases "int_of_cell x") (auto simp: row_in_range_def in_range_def)
  qed
  ultimately have "list_all2 (\<lambda>row b. b = row_in_range cols label low high row) rs flags"
    by (rule list_all2_mono)
  then show ?thesis by (rule select_by_predicate)
qed

lemma in_range_total:
  assumes "label \<in> set (columns df)"
    and "\<forall>row\<in>set (rows df). coercible (columns df) label row"
  shows "\<exists>col flags. get_column df label = Inr col \<and> traverse (in_range low high) col = Inr flags"
proof -
  have co: "\<exists>x. getitem (zip (columns df) row) label = Inr x" if "row \<in> set (rows df)" for row
    using assms(2) that
    by (cases "getitem (zip (columns df) row) label") (auto simp: coercible_def)
  then have "\<forall>r\<in>set (iterrows df). \<exists>x. getitem r label = Inr x"
    by (auto simp: iterrows_def)
  then obtain col where col: "get_column df label = Inr col"
    using assms(1) traverse_total[of "\<lambda>row. getitem row label" "iterrows df"]
    by (auto simp: get_column_def)
  then have l2: "list_all2 (\<lambda>row x. getitem (zip (columns df) row) label = Inr x) (rows df) col"
    by (simp add: get_column_Inr_iff)
  have "\<forall>x\<in>set col. \<exists>b. in_range low high x = Inr b"
  proof
    fix x assume "x \<in> set col"
    then obtain i where i: "i < length col" and x: "x = col ! i"
      by (auto simp: in_set_conv_nth)
    have len: "length (rows df) = length col"
      using l2 by (rule list_all2_lengthD)
    have gi: "getitem (zip (columns df) (rows df ! i)) label = Inr x"
      using l2 i x by (simp add: list_all2_conv_all_nth)
    have mem: "rows df ! i \<in> set (rows df)"
      using i len by simp
    from gi mem obtain row where "row \<in> set (rows df)" "getitem (zip (columns df) row) label = Inr x"
      by blast
    then show "\<exists>b. in_range low high x = Inr b"
      using assms(2) by (auto simp: coercible_def in_range_def split: sum.splits)
  qed
  then obtain flags where "traverse (in_range low high) col = Inr flags"
    using traverse_total[of "in_range low high" col] by auto
  with col show ?thesis by blast
qed

subsection \<open>Numeric-range filter: the filter as a whole\<close>

lemma traverse_Inl: "traverse f xs = Inl e \<Longrightarrow> \<exists>x\<in>set xs. f x = Inl e"
  by (induction xs) (auto split: sum.splits)

lemma get_column_Inl: "get_column df label = Inl e \<Longrightarrow> e = KeyError (LabelKey label)"
  by (auto simp: get_column_def getitem_def dest!: traverse_Inl split: if_splits option.splits)

lemma in_range_Inl: "in_range low high x = Inl e \<Longrightarrow> e = ValueError"
  by (auto simp: in_range_def int_of_cell_def split: cell.splits option.splits sum.splits)

lemma filter_for_range_invalid:
  assumes sp: "str_split CHR ''<'' r = [from, to]"
  shows "(\<exists>e. filter_for_range df p r = Inl e \<and> InvalidRange e) \<longleftrightarrow>
           (lower_bound from = None \<or> upper_bound to = None
            \<or> (\<exists>lo hi. lower_bound from = Some lo \<and> upper_bound to = Some hi \<and> hi < lo))"
proof (cases "lower_bound from")
  case None
  then show ?thesis
    by (simp add: filter_for_range_sides[OF sp] InvalidRange_def)
next
  case lo: (Some lo)
  show ?thesis
  proof (cases "upper_bound to")
    case None
    then show ?thesis
      using lo by (simp add: filter_for_range_sides[OF sp] InvalidRange_def)
  next
    case hi: (Some hi)
    show ?thesis
    proof (cases "lo \<le> hi")
      case False
      then show ?thesis
        using lo hi by (simp add: filter_for_range_sides[OF sp] InvalidRange_def)
    next
      case True
      have "\<not> InvalidRange e" if "filter_for_range df p r = Inl e" for e
      proof -
        from that lo hi True have "e = KeyError (LabelKey (''Param: '' @ p)) \<or> e = ValueError"
          by (auto simp: filter_for_range_sides[OF sp] split: sum.splits
                   dest!: get_column_Inl traverse_Inl in_range_Inl)
        then show ?thesis by (auto simp: InvalidRange_def)
      qed
      then show ?thesis
        using lo hi True by auto
    qed
  qed
qed

lemma filter_for_range_keeps:
  assumes sp: "str_split CHR ''<'' r = [from, to]"
    and ok: "filter_for_range df p r = Inr df'"
  shows "\<exists>lo hi. lower_bound from = Some lo \<and> upper_bound to = Some hi \<and> lo \<le> hi
           \<and> df' = df\<lparr>rows := filter (row_in_range (columns df) (''Param: '' @ p) lo hi) (rows df)\<rparr>"
proof -
  from ok obtain lo where lo: "lower_bound from = Some lo"
    by (cases "lower_bound from") (simp_all add: filter_for_range_sides[OF sp])
  from ok lo obtain hi where hi: "upper_bound to = Some hi"
    by (cases "upper_bound to") (simp_all add: filter_for_range_sides[OF sp])
  from ok lo hi have le: "lo \<le> hi"
    by (cases "lo \<le> hi") (simp_all add: filter_for_range_sides[OF sp])
  from ok lo hi le obtain col where col: "get_column df (''Param: '' @ p) = Inr col"
    by (cases "get_column df (''Param: '' @ p)") (simp_all add: filter_for_range_sides[OF sp])
  from ok lo hi le col obtain flags where fl: "traverse (in_range lo hi) col = Inr flags"
    by (cases "traverse (in_range lo hi) col") (simp_all add: filter_for_range_sides[OF sp])
  from ok lo hi le col fl have df': "df' = select_rows df flags"
    by (simp add: filter_for_range_sides[OF sp])
  have l2: "list_all2 (\<lambda>row x. getitem (zip (columns df) row) (''Param: '' @ p) = Inr x) (rows df) col"
    using col by (simp add: get_column_Inr_iff)
  have "df' = df\<lparr>rows := filter (row_in_range (columns df) (''Param: '' @ p) lo hi) (rows df)\<rparr>"
    unfolding df' select_rows_def in_range_flags[OF l2 fl] ..
  with lo hi le show ?thesis by blast
qed

lemma filter_for_range_succeeds:
  assumes sp: "str_split CHR ''<'' r = [from, to]"
    and lo: "lower_bound from = Some lo" and hi: "upper_bound to = Some hi" and le: "lo \<le> hi"
    and lab: "(''Param: '' @ p) \<in> set (columns df)"
    and co: "\<forall>row\<in>set (rows df). coercible (columns df) (''Param: '' @ p) row"
  shows "\<exists>df'. filter_for_range df p r = Inr df'"
proof -
  from in_range_total[OF lab co, of lo hi] obtain col flags
    where "get_column df (''Param: '' @ p) = Inr col" "traverse (in_range lo hi) col = Inr flags"
    by blast
  then show ?thesis
    using lo hi le by (simp add: filter_for_range_sides[OF sp])
qed

text \<open>
  What the range filter does. A range string that does not contain exactly one \<open><\<close>
  leaves the batch unchanged. With exactly one \<open><\<close>, an empty left side stands for
  the lower bound \<open>-sys.maxsize\<close> and an empty right side for the upper bound
  \<open>sys.maxsize\<close>; the filter fails with the invalid-range error exactly when a
  non-empty side does not parse as an integer or the lower bound exceeds the upper
  bound; when it returns, it keeps exactly the rows whose primary value, coerced to an
  integer, lies in the inclusive range, in their order; and it does return when the
  bounds are valid, the column exists and every cell coerces.
\<close>

lemma filter_for_range_behaviour:
  "(count_list r CHR ''<'' \<noteq> 1 \<longrightarrow> filter_for_range df p r = Inr df)
   \<and> lower_bound [] = Some (- maxsize) \<and> upper_bound [] = Some maxsize
   \<and> (r = from @ CHR ''<'' # to \<and> CHR ''<'' \<notin> set from \<and> CHR ''<'' \<notin> set to \<longrightarrow>
        (from \<noteq> [] \<longrightarrow> lower_bound from = int_of_str from)
        \<and> (to \<noteq> [] \<longrightarrow> upper_bound to = int_of_str to)
        \<and> ((\<exists>e. filter_for_range df p r = Inl e \<and> InvalidRange e) \<longleftrightarrow>
             (lower_bound from = None \<or> upper_bound to = None
              \<or> (\<exists>lo hi. lower_bound from = Some lo \<and> upper_bound to = Some hi \<and> hi < lo)))
        \<and> (\<forall>df'. filter_for_range df p r = Inr df' \<longrightarrow>
              (\<exists>lo hi. lower_bound from = Some lo \<and> upper_bound to = Some hi \<and> lo \<le> hi
                 \<and> df' = df\<lparr>rows := filter (row_in_range (columns df) (''Param: '' @ p) lo hi)
                                        (rows df)\<rparr>))
        \<and> ((\<exists>lo hi. lower_bound from = Some lo \<and> upper_bound to = Some hi \<and> lo \<le> hi)
             \<and> (''Param: '' @ p) \<in> set (columns df)
             \<and> (\<forall>row\<in>set (rows df). coercible (columns df) (''Param: '' @ p) row)
            \<longrightarrow> (\<exists>df'. filter_for_range df p r = Inr df')))"
proof -
  have A: "count_list r CHR ''<'' \<noteq> 1 \<longrightarrow> filter_for_range df p r = Inr df"
    by (simp add: filter_for_range_no_filter)
  have B: "lower_bound [] = Some (- maxsize) \<and> upper_bound [] = Some maxsize"
    by (simp add: lower_bound_def upper_bound_def)
  have C: "(from \<noteq> [] \<longrightarrow> lower_bound from = int_of_str from)
        \<and> (to \<noteq> [] \<longrightarrow> upper_bound to = int_of_str to)"
    by (simp add: lower_bound_def upper_bound_def)
  {
    assume "r = from @ CHR ''<'' # to \<and> CHR ''<'' \<notin> set from \<and> CHR ''<'' \<notin> set to"
    then have sp: "str_split CHR ''<'' r = [from, to]"
      by (simp add: str_split_two_iff)
    note filter_for_range_invalid[OF sp, of df p]
      filter_for_range_keeps[OF sp, of df p]
      filter_for_range_succeeds[OF sp, of _ _ p df]
  }
  then show ?thesis
    using A B C by blast
qed

lemma int_of_str_10: "int_of_str ''10'' = Some 10"
  by (simp add: int_of_str_def int_space_def max_str_digits_def Let_def parse_digits_def isdigit_def digit_value_def)

lemma int_of_str_100: "int_of_str ''100'' = Some 100"
  by (simp add: int_of_str_def int_space_def max_str_digits_def Let_def parse_digits_def isdigit_def digit_value_def)

lemma int_of_str_0: "int_of_str ''0'' = Some 0"
  by (simp add: int_of_str_def int_space_def max_str_digits_def Let_def parse_digits_def isdigit_def digit_value_def)

lemma filter_for_range_behaviour_example:
  "count_list ''abc'' CHR ''<'' \<noteq> 1
   \<and> filter_for_range (sizes_frame [IntCell 8, IntCell 64, IntCell 4096]) ''valueSize'' ''abc''
       = Inr (sizes_frame [IntCell 8, IntCell 64, IntCell 4096])
   \<and> ''10<100'' = ''10'' @ CHR ''<'' # ''100''
   \<and> CHR ''<'' \<notin> set ''10'' \<and> CHR ''<'' \<notin> set ''100''
   \<and> lower_bound ''10'' = Some 10 \<and> upper_bound ''100'' = Some 100
   \<and> ''Param: valueSize'' \<in> set (columns (sizes_frame [IntCell 8, IntCell 64, IntCell 4096]))
   \<and> list_all (coercible (columns (sizes_frame [IntCell 8, IntCell 64, IntCell 4096])) ''Param: valueSize'')
        (rows (sizes_frame [IntCell 8, IntCell 64, IntCell 4096]))
   \<and> filter_for_range (sizes_frame [IntCell 8, IntCell 64, IntCell 4096]) ''valueSize'' ''10<100''
       = Inr (sizes_frame [IntCell 64])"
  using filter_for_range_behaviour
     [of "''abc''" "sizes_frame [IntCell 8, IntCell 64, IntCell 4096]" "''valueSize''" "''10''" "''100''"]
    filter_for_range_behaviour
     [of "''10<100''" "sizes_frame [IntCell 8, IntCell 64, IntCell 4096]" "''valueSize''" "''10''" "''100''"]
  by (auto simp: sizes_frame_def lower_bound_def upper_bound_def int_of_str_10 int_of_str_100
        coercible_def row_in_range_def getitem_def int_of_cell_def)

lemma int_of_str_separator: "int_of_str [CHR 0x1C, CHR ''5''] = None"
  by (simp add: int_of_str_def int_space_def max_str_digits_def Let_def parse_digits_def isdigit_def)

lemma int_of_str_no_break_space: "int_of_str [CHR 0xA0, CHR ''5'', CHR 0x85] = Some 5"
  by (simp add: int_of_str_def int_space_def max_str_digits_def Let_def parse_digits_def isdigit_def
        digit_value_def)

lemma int_of_str_digit_limit:
  assumes "length (filter isdigit s) > 4300"
  shows "int_of_str s = None"
proof (cases "rev (dropWhile int_space (rev (dropWhile int_space s)))")
  case Nil
  show ?thesis unfolding int_of_str_def Nil by simp
next
  case (Cons c cs)
  have sub: "length (filter isdigit (c # cs)) = length (filter isdigit s)"
  proof -
    have nd: "\<not> isdigit x" if "int_space x" for x
      using that by (auto simp: int_space_def isdigit_def)
    have dw: "filter isdigit (dropWhile int_space xs) = filter isdigit xs" for xs
      by (induction xs) (auto simp: nd)
    have "filter isdigit (rev (dropWhile int_space (rev (dropWhile int_space s))))
        = filter isdigit s"
      by (simp add: rev_filter[symmetric] dw)
    with Cons show ?thesis by simp
  qed
  have sign: "\<not> isdigit c" if "c = CHR ''-'' \<or> c = CHR ''+''"
    using that by (auto simp: isdigit_def)
  have "length (filter isdigit (if c = CHR ''-'' \<or> c = CHR ''+'' then cs else c # cs))
      = length (filter isdigit s)"
    using sub sign by auto
  with assms show ?thesis
    unfolding int_of_str_def Cons by (simp add: max_str_digits_def Let_def)
qed

lemma range_with_separator_invalid:
  "filter_for_range df p ([CHR 0x1C] @ ''5<'') = Inl (BenchmarkError (RangeNotValid [[CHR 0x1C, CHR ''5''], []]))"
  by (simp add: filter_for_range_def int_of_str_separator)

text \<open>
  C2. An empty side of the range stands for no bound, and this is what the inclusive
  range of the claim says; lines 258 and 259 put \<open>-sys.maxsize\<close> and
  \<open>sys.maxsize\<close> in its place, and \<open>-sys.maxsize\<close> is not below every integer
  a cell can hold. A row whose primary value is the least 64-bit integer is dropped by
  the range \<open><0\<close>, and by the range \<open><\<close> that is open on both sides, although the
  open lower bound admits it and a range string without \<open><\<close> keeps it.
\<close>

theorem filter_for_range_open_side_drops_row:
  "filter_for_range (sizes_frame [IntCell (- 9223372036854775808)]) ''valueSize'' ''<0''
     = Inr (sizes_frame [])
   \<and> spec_range_keeps [] ''0'' (- 9223372036854775808)
   \<and> filter_for_range (sizes_frame [IntCell (- 9223372036854775808)]) ''valueSize'' ''<''
       = Inr (sizes_frame [])
   \<and> spec_range_keeps [] [] (- 9223372036854775808)
   \<and> filter_for_range (sizes_frame [IntCell (- 9223372036854775808)]) ''valueSize'' ''''
       = Inr (sizes_frame [IntCell (- 9223372036854775808)])"
  by (simp add: filter_for_range_def sizes_frame_def spec_range_keeps_def int_of_str_0
        get_column_def iterrows_def getitem_def in_range_def int_of_cell_def select_rows_def maxsize_def)

subsection \<open>Benchmark-name filter: validation\<close>

lemma leading_char_allowed_iff:
  "leading_char_allowed s \<longleftrightarrow> (\<exists>c cs. s = c # cs \<and> allowed_char c)"
  by (cases s) (simp_all add: leading_char_allowed_def)

lemma benchmark_matches_Inl: "benchmark_matches matches x = Inl e \<Longrightarrow> e = TypeError"
  by (auto simp: benchmark_matches_def split: cell.splits)

lemma filter_for_benchmarks_valid:
  assumes "rb \<noteq> []" and "\<forall>s\<in>set (str_split CHR '','' rb). leading_char_allowed s"
  shows "filter_for_benchmarks re_compile df (Some rb) =
     (case re_compile (benchmark_pattern (str_split CHR '','' rb)) of
        None \<Rightarrow> Inl ReError
      | Some matches \<Rightarrow>
          (case get_column df ''Benchmark'' of
             Inl e \<Rightarrow> Inl e
           | Inr col \<Rightarrow>
               (case traverse (benchmark_matches matches) col of
                  Inl e \<Rightarrow> Inl e
                | Inr flags \<Rightarrow> Inr (select_rows df flags))))"
proof -
  have "find (\<lambda>report_bm. \<not> leading_char_allowed report_bm) (str_split CHR '','' rb) = None"
    using assms(2) by (simp add: find_None_iff)
  then show ?thesis
    using assms(1) by (simp add: filter_for_benchmarks_def Let_def)
qed

lemma filter_for_benchmarks_invalid:
  assumes "rb \<noteq> []" and "\<not> (\<forall>s\<in>set (str_split CHR '','' rb). leading_char_allowed s)"
  shows "\<exists>bm. filter_for_benchmarks re_compile df (Some rb)
            = Inl (BenchmarkError (PatternNonAlphanumeric bm))"
proof -
  obtain bm where "find (\<lambda>report_bm. \<not> leading_char_allowed report_bm) (str_split CHR '','' rb) = Some bm"
    using assms(2) by (cases "find (\<lambda>report_bm. \<not> leading_char_allowed report_bm) (str_split CHR '','' rb)")
      (auto simp: find_None_iff)
  then show ?thesis
    using assms(1) by (simp add: filter_for_benchmarks_def Let_def)
qed

lemma filter_for_benchmarks_valid_errors:
  assumes "rb \<noteq> []" and "\<forall>s\<in>set (str_split CHR '','' rb). leading_char_allowed s"
    and "filter_for_benchmarks re_compile df (Some rb) = Inl e"
  shows "e = ReError \<or> e = KeyError (LabelKey ''Benchmark'') \<or> e = TypeError"
proof (cases "re_compile (benchmark_pattern (str_split CHR '','' rb))")
  case None
  with assms(3) show ?thesis
    unfolding filter_for_benchmarks_valid[OF assms(1,2)] by simp
next
  case (Some matches)
  with assms(3) show ?thesis
    unfolding filter_for_benchmarks_valid[OF assms(1,2)]
    by (auto split: sum.splits dest!: traverse_Inl get_column_Inl benchmark_matches_Inl)
qed

lemma filter_for_benchmarks_valid_error:
  assumes "rb \<noteq> []" and "\<forall>s\<in>set (str_split CHR '','' rb). leading_char_allowed s"
    and "filter_for_benchmarks re_compile df (Some rb) = Inl e"
  shows "\<not> InvalidBenchmarkPattern e"
  using filter_for_benchmarks_valid_errors[OF assms]
  by (auto simp: InvalidBenchmarkPattern_def)

text \<open>
  C6 (as the code has it). For a non-empty pattern list the filter fails with the
  invalid-pattern error exactly when some substring does not start with a character of
  the class \<open>[A-Za-z0-9_+-]\<close>, that is when a substring is empty or its first
  character is outside the class. Only the leading character is inspected: whatever
  follows an allowed first character, the substring passes the validation.
\<close>

theorem benchmark_pattern_validation:
  "(rb \<noteq> [] \<longrightarrow>
      ((\<exists>e. filter_for_benchmarks re_compile df (Some rb) = Inl e \<and> InvalidBenchmarkPattern e) \<longleftrightarrow>
       (\<exists>s\<in>set (str_split CHR '','' rb). s = [] \<or> spec_first_char_outside s)))
   \<and> (leading_char_allowed (c # cs) \<longleftrightarrow> allowed_char c)"
proof -
  have eq: "(\<exists>s\<in>set xs. s = [] \<or> spec_first_char_outside s) \<longleftrightarrow>
            \<not> (\<forall>s\<in>set xs. leading_char_allowed s)" for xs
    by (auto simp: spec_first_char_outside_def leading_char_allowed_def split: list.splits)
  have "(\<exists>e. filter_for_benchmarks re_compile df (Some rb) = Inl e \<and> InvalidBenchmarkPattern e) \<longleftrightarrow>
        \<not> (\<forall>s\<in>set (str_split CHR '','' rb). leading_char_allowed s)" if "rb \<noteq> []"
  proof (cases "\<forall>s\<in>set (str_split CHR '','' rb). leading_char_allowed s")
    case True
    then show ?thesis
      using filter_for_benchmarks_valid_error[OF that True] by blast
  next
    case False
    from filter_for_benchmarks_invalid[OF that False, of re_compile df] obtain bm where
      "filter_for_benchmarks re_compile df (Some rb) = Inl (BenchmarkError (PatternNonAlphanumeric bm))" ..
    then show ?thesis
      using False by (simp add: InvalidBenchmarkPattern_def)
  qed
  then show ?thesis
    unfolding eq by (simp add: leading_char_allowed_def)
qed

theorem benchmark_pattern_validation_witness:
  "''Get!,x y'' \<noteq> []
   \<and> str_split CHR '','' ''Get!,x y'' = [''Get!'', ''x y'']
   \<and> \<not> allowed_char CHR ''!'' \<and> \<not> allowed_char CHR '' ''
   \<and> \<not> (\<exists>e. filter_for_benchmarks fragment_engine (names_frame [''Get!'']) (Some ''Get!,x y'') = Inl e
           \<and> InvalidBenchmarkPattern e)
   \<and> (\<exists>e. filter_for_benchmarks fragment_engine (names_frame [''Get!'']) (Some ''Get,!'') = Inl e
           \<and> InvalidBenchmarkPattern e)"
  using benchmark_pattern_validation
      [of "''Get!,x y''" fragment_engine "names_frame [''Get!'']" "CHR ''G''" "''et!''"]
    benchmark_pattern_validation
      [of "''Get,!''" fragment_engine "names_frame [''Get!'']" "CHR ''G''" "''et''"]
  by (simp add: spec_first_char_outside_def allowed_char_def)

theorem benchmark_pattern_validation_counterexample:
  "filter_for_benchmarks fragment_engine (names_frame [''abc'']) (Some ''a,'')
     = Inl (BenchmarkError (PatternNonAlphanumeric []))
   \<and> str_split CHR '','' ''a,'' = [''a'', []]
   \<and> \<not> spec_first_char_outside ''a'' \<and> \<not> spec_first_char_outside []"
  by (simp add: filter_for_benchmarks_def leading_char_allowed_def allowed_char_def
        spec_first_char_outside_def)

subsection \<open>Benchmark-name filter: the fragment\<close>

lemma str_split_join:
  assumes "subs \<noteq> []" and "\<forall>s\<in>set subs. sep \<notin> set s"
  shows "str_split sep (str_join [sep] subs) = subs"
  using assms
proof (induction "[sep]" subs rule: str_join.induct)
  case 1
  then show ?case by simp
next
  case (2 x)
  then show ?case by (simp add: str_split_no_sep)
next
  case (3 x y ys)
  then show ?case by (simp add: str_split_append_sep)
qed

lemma pattern_body_benchmark: "pattern_body (benchmark_pattern subs) = Some (str_join ''|'' subs)"
  by (simp add: pattern_body_def benchmark_pattern_def)

lemma atom_of_ordinary: "\<not> re_special c \<Longrightarrow> atom_of c = Some (Lit c)"
  by (auto simp: atom_of_def re_special_def)

lemma quant_of_ordinary: "\<not> re_special c \<Longrightarrow> quant_of c = None"
  by (auto simp: quant_of_def re_special_def)

lemma parse_items_literal:
  "\<forall>c\<in>set s. \<not> re_special c \<Longrightarrow> parse_items s = Some (map (\<lambda>c. (Lit c, Once)) s)"
proof (induction s rule: parse_items.induct)
  case 1
  show ?case by simp
next
  case (2 c)
  then show ?case by (simp add: atom_of_ordinary)
next
  case (3 c d cs)
  from "3.prems" have c: "atom_of c = Some (Lit c)" and d: "quant_of d = None"
    by (simp_all add: atom_of_ordinary quant_of_ordinary)
  from "3.prems" have "\<forall>c\<in>set (d # cs). \<not> re_special c" by simp
  with "3.IH"(1)[OF c d] have "parse_items (d # cs) = Some (map (\<lambda>c. (Lit c, Once)) (d # cs))"
    by blast
  with c d show ?case by simp
qed

lemma those_parse_literal:
  "\<forall>s\<in>set subs. \<forall>c\<in>set s. \<not> re_special c
     \<Longrightarrow> those (map parse_items subs) = Some (map (map (\<lambda>c. (Lit c, Once))) subs)"
  by (induction subs) (simp_all add: parse_items_literal)

lemma fragment_engine_literal:
  assumes "subs \<noteq> []" and "\<forall>s\<in>set subs. \<forall>c\<in>set s. \<not> re_special c"
  shows "fragment_engine (benchmark_pattern subs)
           = Some (re_match (map (map (\<lambda>c. (Lit c, Once))) subs))"
proof -
  have "re_special CHR ''|''" by (simp add: re_special_def)
  with assms(2) have "\<forall>s\<in>set subs. CHR ''|'' \<notin> set s" by blast
  with assms(1) have "str_split CHR ''|'' (str_join ''|'' subs) = subs"
    by (rule str_split_join)
  then show ?thesis
    by (simp add: fragment_engine_def pattern_body_benchmark those_parse_literal[OF assms(2)])
qed

lemma items_match_literal: "items_match (map (\<lambda>c. (Lit c, Once)) s) x \<longleftrightarrow> prefix s x"
proof (induction s arbitrary: x)
  case Nil
  show ?case by simp
next
  case (Cons c s)
  show ?case by (cases x) (auto simp: Cons.IH)
qed

lemma re_match_iff:
  "re_match alts x \<longleftrightarrow>
     (\<exists>p t. x = p @ t \<and> list_all (\<lambda>c. \<not> isspace c) p \<and> list_ex (\<lambda>a. items_match a t) alts)"
proof (induction x)
  case Nil
  show ?case by simp
next
  case (Cons c cs)
  show ?case (is "?L = ?R")
  proof
    assume ?L
    then consider "list_ex (\<lambda>a. items_match a (c # cs)) alts"
      | "\<not> isspace c" "re_match alts cs" by auto
    then show ?R
    proof cases
      case 1
      then have "c # cs = [] @ (c # cs) \<and> list_all (\<lambda>c. \<not> isspace c) []
          \<and> list_ex (\<lambda>a. items_match a (c # cs)) alts" by simp
      then show ?thesis by blast
    next
      case 2
      then obtain p t where "cs = p @ t" "list_all (\<lambda>c. \<not> isspace c) p"
        "list_ex (\<lambda>a. items_match a t) alts"
        using Cons.IH by blast
      then have "c # cs = (c # p) @ t \<and> list_all (\<lambda>c. \<not> isspace c) (c # p)
          \<and> list_ex (\<lambda>a. items_match a t) alts"
        using 2(1) by simp
      then show ?thesis by blast
    qed
  next
    assume ?R
    then obtain p t where x: "c # cs = p @ t" and p: "list_all (\<lambda>c. \<not> isspace c) p"
      and t: "list_ex (\<lambda>a. items_match a t) alts" by blast
    show ?L
    proof (cases p)
      case Nil
      with x have "t = c # cs" by simp
      with t show ?thesis by simp
    next
      case (Cons c' p')
      with x have "c' = c" "cs = p' @ t" by simp_all
      with p Cons t have "\<not> isspace c" and "re_match alts cs"
        using Cons.IH by auto
      then show ?thesis by simp
    qed
  qed
qed

lemma re_match_literal:
  "re_match (map (map (\<lambda>c. (Lit c, Once))) subs) name \<longleftrightarrow> list_ex (\<lambda>s. occurs_unspaced s name) subs"
proof -
  have "list_ex (\<lambda>a. items_match a t) (map (map (\<lambda>c. (Lit c, Once))) subs) \<longleftrightarrow> (\<exists>s\<in>set subs. prefix s t)" for t
    by (simp add: list_ex_iff items_match_literal)
  then have "re_match (map (map (\<lambda>c. (Lit c, Once))) subs) name \<longleftrightarrow>
      (\<exists>p t. name = p @ t \<and> list_all (\<lambda>c. \<not> isspace c) p \<and> (\<exists>s\<in>set subs. prefix s t))"
    by (simp add: re_match_iff)
  also have "\<dots> \<longleftrightarrow> (\<exists>s\<in>set subs. occurs_unspaced s name)"
    unfolding occurs_unspaced_def prefix_def by blast
  finally show ?thesis by (simp add: list_ex_iff)
qed

lemma occurs_unspaced_sublist:
  "list_all (\<lambda>c. \<not> isspace c) name \<Longrightarrow> occurs_unspaced s name \<longleftrightarrow> sublist s name"
  unfolding occurs_unspaced_def sublist_def
  by (auto simp: list_all_iff)

lemma pattern_flags:
  assumes col: "list_all2 (\<lambda>row x. getitem (zip cols row) ''Benchmark'' = Inr x) rs col"
    and fl: "traverse (benchmark_matches matches) col = Inr flags"
  shows "map fst (filter snd (zip rs flags)) = filter (pattern_kept cols matches) rs"
proof -
  have "list_all2 (\<lambda>row b. \<exists>x. getitem (zip cols row) ''Benchmark'' = Inr x
            \<and> benchmark_matches matches x = Inr b) rs flags"
    by (rule traverse_column[OF col, THEN iffD1, OF fl])
  moreover have "b = pattern_kept cols matches row"
    if "\<exists>x. getitem (zip cols row) ''Benchmark'' = Inr x
          \<and> benchmark_matches matches x = Inr b" for row b
  proof -
    from that obtain x where gx: "getitem (zip cols row) ''Benchmark'' = Inr x"
      and bm: "benchmark_matches matches x = Inr b" by blast
    show ?thesis
      using gx bm
      by (cases x) (auto simp: pattern_kept_def benchmark_matches_def)
  qed
  ultimately have "list_all2 (\<lambda>row b. b = pattern_kept cols matches row) rs flags"
    by (rule list_all2_mono)
  then show ?thesis by (rule select_by_predicate)
qed

lemma filter_for_benchmarks_compiled:
  assumes "rb \<noteq> []" and "\<forall>s\<in>set (str_split CHR '','' rb). leading_char_allowed s"
    and "re_compile (benchmark_pattern (str_split CHR '','' rb)) = Some matches"
  shows "filter_for_benchmarks re_compile df (Some rb) =
     (case get_column df ''Benchmark'' of
        Inl e \<Rightarrow> Inl e
      | Inr col \<Rightarrow>
          (case traverse (benchmark_matches matches) col of
             Inl e \<Rightarrow> Inl e
           | Inr flags \<Rightarrow> Inr (select_rows df flags)))"
  by (simp add: filter_for_benchmarks_valid[OF assms(1,2)] assms(3))

lemma filter_for_benchmarks_keeps:
  assumes ne: "rb \<noteq> []"
    and v: "\<forall>s\<in>set (str_split CHR '','' rb). leading_char_allowed s"
    and m: "re_compile (benchmark_pattern (str_split CHR '','' rb)) = Some matches"
    and ok: "filter_for_benchmarks re_compile df (Some rb) = Inr df'"
  shows "df' = df\<lparr>rows := filter (pattern_kept (columns df) matches) (rows df)\<rparr>"
proof -
  from ok obtain col where col: "get_column df ''Benchmark'' = Inr col"
    by (cases "get_column df ''Benchmark''") (simp_all add: filter_for_benchmarks_compiled[where re_compile = re_compile, OF ne v m])
  from ok col obtain flags where fl: "traverse (benchmark_matches matches) col = Inr flags"
    by (cases "traverse (benchmark_matches matches) col")
       (simp_all add: filter_for_benchmarks_compiled[where re_compile = re_compile, OF ne v m])
  from ok col fl have df': "df' = select_rows df flags"
    by (simp add: filter_for_benchmarks_compiled[where re_compile = re_compile, OF ne v m])
  have l2: "list_all2 (\<lambda>row x. getitem (zip (columns df) row) ''Benchmark'' = Inr x) (rows df) col"
    using col by (simp add: get_column_Inr_iff)
  show ?thesis
    unfolding df' select_rows_def pattern_flags[OF l2 fl] ..
qed

lemma filter_for_benchmarks_succeeds:
  assumes ne: "rb \<noteq> []"
    and v: "\<forall>s\<in>set (str_split CHR '','' rb). leading_char_allowed s"
    and m: "re_compile (benchmark_pattern (str_split CHR '','' rb)) = Some matches"
    and lab: "''Benchmark'' \<in> set (columns df)"
    and names: "\<forall>row\<in>set (rows df). has_benchmark_name (columns df) row"
  shows "\<exists>df'. filter_for_benchmarks re_compile df (Some rb) = Inr df'"
proof -
  have nm: "\<exists>n. getitem (zip (columns df) row) ''Benchmark'' = Inr (StrCell n)"
    if "row \<in> set (rows df)" for row
  proof -
    from names that have h: "has_benchmark_name (columns df) row" by blast
    show ?thesis
    proof (cases "getitem (zip (columns df) row) ''Benchmark''")
      case (Inl e)
      with h show ?thesis by (simp add: has_benchmark_name_def)
    next
      case (Inr x)
      with h show ?thesis by (cases x) (simp_all add: has_benchmark_name_def)
    qed
  qed
  then have "\<forall>r\<in>set (iterrows df). \<exists>x. getitem r ''Benchmark'' = Inr x"
    by (auto simp: iterrows_def)
  then obtain col where col: "get_column df ''Benchmark'' = Inr col"
    using lab traverse_total[of "\<lambda>row. getitem row ''Benchmark''" "iterrows df"]
    by (auto simp: get_column_def)
  then have l2: "list_all2 (\<lambda>row x. getitem (zip (columns df) row) ''Benchmark'' = Inr x) (rows df) col"
    by (simp add: get_column_Inr_iff)
  have "\<forall>x\<in>set col. \<exists>b. benchmark_matches matches x = Inr b"
  proof
    fix x assume "x \<in> set col"
    then obtain i where i: "i < length col" and x: "x = col ! i"
      by (auto simp: in_set_conv_nth)
    have len: "length (rows df) = length col"
      using l2 by (rule list_all2_lengthD)
    have gi: "getitem (zip (columns df) (rows df ! i)) ''Benchmark'' = Inr x"
      using l2 i x by (simp add: list_all2_conv_all_nth)
    have mem: "rows df ! i \<in> set (rows df)"
      using i len by simp
    from nm[OF mem] gi obtain n where "x = StrCell n" by auto
    then show "\<exists>b. benchmark_matches matches x = Inr b"
      by (simp add: benchmark_matches_def)
  qed
  then obtain flags where "traverse (benchmark_matches matches) col = Inr flags"
    using traverse_total[of "benchmark_matches matches" col] by auto
  with col show ?thesis
    by (simp add: filter_for_benchmarks_compiled[where re_compile = re_compile, OF ne v m])
qed

text \<open>
  C3 (as the code has it). An absent or empty pattern list passes every row unchanged.
  Otherwise the validated substrings are joined, as they are, into the regular
  expression \<open>\S*(s1|...|sn)\S*\<close>. If it does not compile the filter raises
  \<open>re.error\<close>; if it compiles, a row is kept exactly when the pattern matches at the
  start of its benchmark name, the kept rows keep their order, and the filter returns
  whenever the frame has a Benchmark column of strings. For substrings without a
  character that is special in a regular expression the pattern matches a name exactly
  when the name contains one of the substrings, case-sensitively, at a position that
  only non-whitespace characters precede; for a name without whitespace that is:
  anywhere in the name.
\<close>

theorem filter_for_benchmarks_semantics:
  "filter_for_benchmarks re_compile df None = Inr df
   \<and> filter_for_benchmarks re_compile df (Some []) = Inr df
   \<and> (rb \<noteq> [] \<and> (\<forall>s\<in>set (str_split CHR '','' rb). leading_char_allowed s) \<longrightarrow>
        (re_compile (benchmark_pattern (str_split CHR '','' rb)) = None \<longrightarrow>
           filter_for_benchmarks re_compile df (Some rb) = Inl ReError)
        \<and> (\<forall>matches. re_compile (benchmark_pattern (str_split CHR '','' rb)) = Some matches \<longrightarrow>
             (\<forall>df'. filter_for_benchmarks re_compile df (Some rb) = Inr df' \<longrightarrow>
                df' = df\<lparr>rows := filter (pattern_kept (columns df) matches) (rows df)\<rparr>)
             \<and> (''Benchmark'' \<in> set (columns df)
                  \<and> (\<forall>row\<in>set (rows df). has_benchmark_name (columns df) row)
                 \<longrightarrow> (\<exists>df'. filter_for_benchmarks re_compile df (Some rb) = Inr df'))))
   \<and> (subs \<noteq> [] \<and> (\<forall>s\<in>set subs. \<forall>c\<in>set s. \<not> re_special c) \<longrightarrow>
        (\<exists>matches. fragment_engine (benchmark_pattern subs) = Some matches
           \<and> (\<forall>name. matches name = list_ex (\<lambda>s. occurs_unspaced s name) subs)))
   \<and> (list_all (\<lambda>c. \<not> isspace c) name \<longrightarrow> occurs_unspaced s name = sublist s name)"
proof -
  have A: "filter_for_benchmarks re_compile df None = Inr df
      \<and> filter_for_benchmarks re_compile df (Some []) = Inr df"
    by (simp add: filter_for_benchmarks_def)
  have D: "list_all (\<lambda>c. \<not> isspace c) name \<longrightarrow> occurs_unspaced s name = sublist s name"
    by (simp add: occurs_unspaced_sublist)
  have C: "\<exists>matches. fragment_engine (benchmark_pattern subs) = Some matches
           \<and> (\<forall>name. matches name = list_ex (\<lambda>s. occurs_unspaced s name) subs)"
    if "subs \<noteq> []" "\<forall>s\<in>set subs. \<forall>c\<in>set s. \<not> re_special c"
    using fragment_engine_literal[OF that] re_match_literal by blast
  have B: "(re_compile (benchmark_pattern (str_split CHR '','' rb)) = None \<longrightarrow>
           filter_for_benchmarks re_compile df (Some rb) = Inl ReError)
        \<and> (\<forall>matches. re_compile (benchmark_pattern (str_split CHR '','' rb)) = Some matches \<longrightarrow>
             (\<forall>df'. filter_for_benchmarks re_compile df (Some rb) = Inr df' \<longrightarrow>
                df' = df\<lparr>rows := filter (pattern_kept (columns df) matches) (rows df)\<rparr>)
             \<and> (''Benchmark'' \<in> set (columns df)
                  \<and> (\<forall>row\<in>set (rows df). has_benchmark_name (columns df) row)
                 \<longrightarrow> (\<exists>df'. filter_for_benchmarks re_compile df (Some rb) = Inr df')))"
    if ne: "rb \<noteq> []" and v: "\<forall>s\<in>set (str_split CHR '','' rb). leading_char_allowed s"
  proof -
    have 1: "re_compile (benchmark_pattern (str_split CHR '','' rb)) = None \<longrightarrow>
           filter_for_benchmarks re_compile df (Some rb) = Inl ReError"
      by (simp add: filter_for_benchmarks_valid[OF ne v])
    have 2: "\<forall>df'. filter_for_benchmarks re_compile df (Some rb) = Inr df' \<longrightarrow>
                df' = df\<lparr>rows := filter (pattern_kept (columns df) matches) (rows df)\<rparr>"
      if "re_compile (benchmark_pattern (str_split CHR '','' rb)) = Some matches" for matches
      using filter_for_benchmarks_keeps[where re_compile = re_compile, OF ne v that] by blast
    have 3: "''Benchmark'' \<in> set (columns df)
                  \<and> (\<forall>row\<in>set (rows df). has_benchmark_name (columns df) row)
                 \<longrightarrow> (\<exists>df'. filter_for_benchmarks re_compile df (Some rb) = Inr df')"
      if "re_compile (benchmark_pattern (str_split CHR '','' rb)) = Some matches" for matches
      using filter_for_benchmarks_succeeds[where re_compile = re_compile, OF ne v that] by blast
    from 1 2 3 show ?thesis by blast
  qed
  from A B C D show ?thesis by blast
qed

lemma rows_update: "rows (df\<lparr>rows := x\<rparr>) = x"
  by simp

lemma engine_direct_byte:
  "fragment_engine (benchmark_pattern [''Direct'', ''Byte''])
     = Some (re_match (map (map (\<lambda>c. (Lit c, Once))) [''Direct'', ''Byte'']))"
  by (rule fragment_engine_literal) (simp_all add: re_special_def)

lemma filter_direct_byte:
  "filter_for_benchmarks fragment_engine (names_frame [''GetDirect'', ''Unsafe'', ''GetByte''])
       (Some ''Direct,Byte'')
     = Inr (names_frame [''GetDirect'', ''GetByte''])"
  by (simp add: filter_for_benchmarks_def engine_direct_byte names_frame_def
        leading_char_allowed_def allowed_char_def get_column_def iterrows_def getitem_def
        benchmark_matches_def select_rows_def isspace_def)

lemma engine_a_plus_b:
  "fragment_engine (benchmark_pattern [''a+b''])
     = Some (re_match [[(Lit CHR ''a'', OneOrMore), (Lit CHR ''b'', Once)]])"
  by (simp add: fragment_engine_def pattern_body_def benchmark_pattern_def atom_of_def quant_of_def
        re_special_def)

lemma engine_direct:
  "fragment_engine (benchmark_pattern [''Direct''])
     = Some (re_match [map (\<lambda>c. (Lit c, Once)) ''Direct''])"
  by (simp add: fragment_engine_def pattern_body_def benchmark_pattern_def atom_of_def quant_of_def
        re_special_def)

lemma engine_get_dot:
  "fragment_engine (benchmark_pattern [''Get.''])
     = Some (re_match [[(Lit CHR ''G'', Once), (Lit CHR ''e'', Once), (Lit CHR ''t'', Once),
                        (AnyChar, Once)]])"
  by (simp add: fragment_engine_def pattern_body_def benchmark_pattern_def atom_of_def quant_of_def
        re_special_def)

theorem filter_for_benchmarks_semantics_witness:
  "''Direct,Byte'' \<noteq> []
   \<and> str_split CHR '','' ''Direct,Byte'' = [''Direct'', ''Byte'']
   \<and> list_all leading_char_allowed [''Direct'', ''Byte'']
   \<and> list_all (\<lambda>s. list_all (\<lambda>c. \<not> re_special c) s) [''Direct'', ''Byte'']
   \<and> filter_for_benchmarks fragment_engine (names_frame [''GetDirect'', ''Unsafe'', ''GetByte''])
         (Some ''Direct,Byte'')
       = Inr (names_frame [''GetDirect'', ''GetByte''])
   \<and> (\<exists>matches. fragment_engine (benchmark_pattern [''Direct'', ''Byte'']) = Some matches
         \<and> matches ''GetDirect''
         \<and> rows (names_frame [''GetDirect'', ''GetByte''])
             = filter (pattern_kept (columns (names_frame [''GetDirect'', ''Unsafe'', ''GetByte'']))
                         matches)
                 (rows (names_frame [''GetDirect'', ''Unsafe'', ''GetByte''])))
   \<and> list_all (\<lambda>c. \<not> isspace c) ''GetDirect''
   \<and> occurs_unspaced ''Direct'' ''GetDirect''"
proof -
  let ?F = "names_frame [''GetDirect'', ''Unsafe'', ''GetByte'']"
  let ?G = "names_frame [''GetDirect'', ''GetByte'']"
  let ?subs = "[''Direct'', ''Byte'']"
  have ne: "''Direct,Byte'' \<noteq> []"
    by simp
  have sp: "str_split CHR '','' ''Direct,Byte'' = ?subs"
    by simp
  have v: "list_all leading_char_allowed ?subs"
    by (simp add: leading_char_allowed_def allowed_char_def)
  have lit: "list_all (\<lambda>s. list_all (\<lambda>c. \<not> re_special c) s) ?subs"
    by (simp add: re_special_def)
  have v': "\<forall>s\<in>set (str_split CHR '','' ''Direct,Byte''). leading_char_allowed s"
    unfolding sp using v by (simp add: list_all_iff)
  have lit': "?subs \<noteq> [] \<and> (\<forall>s\<in>set ?subs. \<forall>c\<in>set s. \<not> re_special c)"
    using lit by (simp add: list_all_iff)
  have ns: "list_all (\<lambda>c. \<not> isspace c) ''GetDirect''"
    by (simp add: isspace_def)
  have sub: "sublist ''Direct'' ''GetDirect''"
    by (simp add: sublist_Cons_right)
  note inst = filter_for_benchmarks_semantics
    [of fragment_engine ?F "''Direct,Byte''" ?subs "''GetDirect''" "''Direct''"]
  from inst ns have "occurs_unspaced ''Direct'' ''GetDirect'' = sublist ''Direct'' ''GetDirect''"
    by (elim conjE) (erule mp)
  with sub have occ: "occurs_unspaced ''Direct'' ''GetDirect''"
    by simp
  from inst lit' obtain matches where m: "fragment_engine (benchmark_pattern ?subs) = Some matches"
    and mm: "\<forall>name. matches name = list_ex (\<lambda>s. occurs_unspaced s name) ?subs"
    by blast
  from mm occ have md: "matches ''GetDirect''"
    by simp
  from m have m': "fragment_engine (benchmark_pattern (str_split CHR '','' ''Direct,Byte'')) = Some matches"
    by (simp only: sp)
  from inst ne v' m' filter_direct_byte
  have "?G = ?F\<lparr>rows := filter (pattern_kept (columns ?F) matches) (rows ?F)\<rparr>"
    by blast
  then have "rows ?G = rows (?F\<lparr>rows := filter (pattern_kept (columns ?F) matches) (rows ?F)\<rparr>)"
    by (rule arg_cong)
  then have r: "rows ?G = filter (pattern_kept (columns ?F) matches) (rows ?F)"
    by (simp only: rows_update)
  from m md r have ex: "\<exists>matches. fragment_engine (benchmark_pattern ?subs) = Some matches
         \<and> matches ''GetDirect''
         \<and> rows ?G = filter (pattern_kept (columns ?F) matches) (rows ?F)"
    by blast
  from ne sp v lit filter_direct_byte ex ns occ show ?thesis
    by (intro conjI)
qed

theorem filter_for_benchmarks_counterexample:
  "list_all allowed_char ''a+b''
   \<and> filter_for_benchmarks fragment_engine (names_frame [''ab'', ''a+b'']) (Some ''a+b'')
       = Inr (names_frame [''ab''])
   \<and> \<not> sublist ''a+b'' ''ab''
   \<and> sublist ''a+b'' ''a+b''
   \<and> filter_for_benchmarks fragment_engine (names_frame [''my Direct'']) (Some ''Direct'')
       = Inr (names_frame [])
   \<and> sublist ''Direct'' ''my Direct''
   \<and> filter_for_benchmarks fragment_engine (names_frame [''GetX'']) (Some ''Get.'')
       = Inr (names_frame [''GetX''])
   \<and> \<not> sublist ''Get.'' ''GetX''"
  by (simp add: filter_for_benchmarks_def engine_a_plus_b engine_direct engine_get_dot
        names_frame_def leading_char_allowed_def allowed_char_def
        get_column_def iterrows_def getitem_def
        benchmark_matches_def select_rows_def isspace_def sublist_Cons_right)

subsection \<open>Grouping engine: the loop body\<close>

lemma primary_loop_appends:
  assumes "map_of G k = Some rs" and "map_of rs b = Some xs"
    and "getitem row ''Benchmark'' = Inr b"
  shows "primary_loop row k G prim =
     (case traverse (\<lambda>(name, column). result_point row column) prim of
        Inl e \<Rightarrow> Inl e
      | Inr pts \<Rightarrow> Inr (AList.update k (AList.update b (xs @ pts) rs) G))"
  using assms
proof (induction prim arbitrary: G rs xs)
  case Nil
  then show ?case
    by (simp add: AList.update_triv)
next
  case (Cons nc prim)
  obtain name column where nc: "nc = (name, column)" by (cases nc)
  show ?case
  proof (cases "result_point row column")
    case (Inl e)
    then show ?thesis by (simp add: nc)
  next
    case (Inr entry)
    let ?rs = "AList.update b (xs @ [entry]) rs"
    let ?G = "AList.update k ?rs G"
    have 1: "map_of ?G k = Some ?rs" by (simp add: AList.update_conv')
    have 2: "map_of ?rs b = Some (xs @ [entry])" by (simp add: AList.update_conv')
    have step: "primary_loop row k G (nc # prim) = primary_loop row k ?G prim"
      using Inr Cons.prems by (simp add: nc)
    show ?thesis
      unfolding step Cons.IH[OF 1 2 Cons.prems(3)]
      using Inr by (simp add: nc split: sum.splits)
  qed
qed

lemma group_row_entry:
  "group_row params G row =
     (case row_entry params row of
        Inl e \<Rightarrow> Inl e
      | Inr (k, b, pts) \<Rightarrow> Inr (add_points G k b pts))"
proof (cases "tuple_of_secondary_values params row")
  case (Inl e)
  then show ?thesis by (simp add: group_row_def row_entry_def)
next
  case k: (Inr k)
  show ?thesis
  proof (cases "getitem row ''Benchmark''")
    case (Inl e)
    then show ?thesis using k by (simp add: group_row_def row_entry_def Let_def)
  next
    case b: (Inr b)
    define rs where "rs = (case map_of G k of None \<Rightarrow> [] | Some rs \<Rightarrow> rs)"
    define rs1 where "rs1 = (if map_of G k = None then AList.update k [] G else G)"
    define old where "old = (case map_of rs b of None \<Rightarrow> [] | Some xs \<Rightarrow> xs)"
    define rs2 where "rs2 = (if map_of rs b = None then AList.update k (AList.update b [] rs) rs1 else rs1)"
    define rs' where "rs' = (if map_of rs b = None then AList.update b [] rs else rs)"
    have m1: "map_of rs1 k = Some rs"
      by (cases "map_of G k") (simp_all add: rs1_def rs_def AList.update_conv')
    have m2: "map_of rs2 k = Some rs'"
      using m1 by (simp add: rs2_def rs'_def AList.update_conv')
    have m3: "map_of rs' b = Some old"
      by (cases "map_of rs b") (simp_all add: rs'_def old_def AList.update_conv')
    have gr: "group_row params G row = primary_loop row k rs2 (primary params)"
      using k b m1 by (simp add: group_row_def Let_def rs1_def[symmetric] rs2_def)
    have upd: "AList.update k (AList.update b (old @ pts) rs') rs2
             = AList.update k (AList.update b (old @ pts) rs) G" for pts
      by (cases "map_of G k"; cases "map_of rs b") (simp_all add: rs'_def rs2_def rs1_def)
    show ?thesis
      unfolding gr primary_loop_appends[OF m2 m3 b] upd
      using k b by (simp add: row_entry_def add_points_def Let_def rs_def old_def split: sum.splits)
  qed
qed

lemma extract_loop_entries:
  "extract_loop params G rs =
     (case traverse (row_entry params) rs of Inl e \<Rightarrow> Inl e | Inr es \<Rightarrow> Inr (add_all G es))"
proof (induction rs arbitrary: G)
  case Nil
  show ?case by simp
next
  case (Cons row rs)
  show ?case
    by (cases "row_entry params row")
       (auto simp: group_row_entry Cons.IH split: sum.splits prod.splits)
qed

subsection \<open>Grouping engine: adding the points of a row\<close>

lemma bucket_of_add_points:
  "bucket_of (add_points G k b pts) k' b' =
     (if k' = k \<and> b' = b
      then Some ((case bucket_of G k b of None \<Rightarrow> [] | Some xs \<Rightarrow> xs) @ pts)
      else bucket_of G k' b')"
  by (cases "map_of G k")
     (auto simp: bucket_of_def add_points_def Let_def AList.update_conv' split: option.splits)

lemma keys_add_points: "fst ` set (add_points G k b pts) = insert k (fst ` set G)"
  by (simp add: add_points_def Let_def AList.dom_update)

lemma distinct_add_points:
  "distinct (map fst G) \<Longrightarrow> distinct (map fst (add_points G k b pts))"
  by (simp add: add_points_def Let_def AList.distinct_update)

lemma inner_distinct_add_points:
  assumes "\<forall>k rs. map_of G k = Some rs \<longrightarrow> distinct (map fst rs)"
  shows "\<forall>k' rs. map_of (add_points G k b pts) k' = Some rs \<longrightarrow> distinct (map fst rs)"
  using assms
  by (cases "map_of G k")
     (auto simp: add_points_def Let_def AList.update_conv' AList.distinct_update split: if_splits)

lemma sum_update:
  "sum_list (map (\<lambda>p. f (snd p)) (AList.update k v al))
     + (case map_of al k of None \<Rightarrow> 0 | Some old \<Rightarrow> f old)
   = sum_list (map (\<lambda>p. f (snd p)) al) + (f v :: nat)"
  by (induction al) auto

lemma total_points_add_points:
  "total_points (add_points G k b pts) = total_points G + length pts"
proof -
  define rs where "rs = (case map_of G k of None \<Rightarrow> [] | Some rs \<Rightarrow> rs)"
  define old where "old = (case map_of rs b of None \<Rightarrow> [] | Some xs \<Rightarrow> xs)"
  define rs' where "rs' = AList.update b (old @ pts) rs"
  have "group_size rs' + (case map_of rs b of None \<Rightarrow> 0 | Some xs \<Rightarrow> length xs)
      = group_size rs + length (old @ pts)"
    unfolding group_size_def rs'_def by (rule sum_update)
  moreover have "(case map_of rs b of None \<Rightarrow> 0 | Some xs \<Rightarrow> length xs) = length old"
    by (simp add: old_def split: option.splits)
  ultimately have g: "group_size rs' = group_size rs + length pts"
    by simp
  have "total_points (AList.update k rs' G)
        + (case map_of G k of None \<Rightarrow> 0 | Some r \<Rightarrow> group_size r)
      = total_points G + group_size rs'"
    unfolding total_points_def by (rule sum_update)
  moreover have "(case map_of G k of None \<Rightarrow> 0 | Some r \<Rightarrow> group_size r) = group_size rs"
    by (simp add: rs_def group_size_def split: option.splits)
  ultimately have "total_points (AList.update k rs' G) = total_points G + length pts"
    using g by simp
  then show ?thesis
    by (simp add: add_points_def Let_def rs'_def old_def rs_def)
qed

lemma bucket_of_add_all:
  "bucket_of (add_all G es) k b =
     (case filter (\<lambda>e. fst e = k \<and> fst (snd e) = b) es of
        [] \<Rightarrow> bucket_of G k b
      | h # hs \<Rightarrow>
          Some ((case bucket_of G k b of None \<Rightarrow> [] | Some xs \<Rightarrow> xs)
                @ concat (map (\<lambda>e. snd (snd e)) (h # hs))))"
proof (induction es arbitrary: G)
  case Nil
  show ?case by simp
next
  case (Cons e es)
  obtain k' b' pts where e: "e = (k', b', pts)" by (cases e)
  show ?case
    unfolding e
    by (auto simp: Cons.IH bucket_of_add_points split: list.splits option.splits)
qed

lemma keys_add_all: "fst ` set (add_all G es) = fst ` set G \<union> fst ` set es"
proof (induction es arbitrary: G)
  case Nil
  show ?case by simp
next
  case (Cons e es)
  obtain k' b' pts where e: "e = (k', b', pts)" by (cases e)
  show ?case
    unfolding e by (simp add: Cons.IH keys_add_points)
qed

lemma distinct_add_all:
  "distinct (map fst G) \<Longrightarrow> distinct (map fst (add_all G es))"
proof (induction es arbitrary: G)
  case Nil
  then show ?case by simp
next
  case (Cons e es)
  obtain k' b' pts where e: "e = (k', b', pts)" by (cases e)
  show ?case
    unfolding e using Cons.prems by (simp add: Cons.IH distinct_add_points)
qed

lemma inner_distinct_add_all:
  "\<forall>k rs. map_of G k = Some rs \<longrightarrow> distinct (map fst rs)
     \<Longrightarrow> \<forall>k rs. map_of (add_all G es) k = Some rs \<longrightarrow> distinct (map fst rs)"
proof (induction es arbitrary: G)
  case Nil
  then show ?case by simp
next
  case (Cons e es)
  obtain k' b' pts where e: "e = (k', b', pts)" by (cases e)
  have "\<forall>k rs. map_of (add_points G k' b' pts) k = Some rs \<longrightarrow> distinct (map fst rs)"
    using Cons.prems by (rule inner_distinct_add_points)
  then show ?case
    unfolding e add_all.simps by (rule Cons.IH)
qed

lemma total_points_add_all:
  "total_points (add_all G es) = total_points G + sum_list (map (\<lambda>e. length (snd (snd e))) es)"
proof (induction es arbitrary: G)
  case Nil
  show ?case by simp
next
  case (Cons e es)
  obtain k' b' pts where e: "e = (k', b', pts)" by (cases e)
  show ?case
    unfolding e by (simp add: Cons.IH total_points_add_points)
qed

subsection \<open>Grouping engine: from rows to the grouping\<close>

lemma extract_results_iff:
  "extract_results_per_param df params = Inr G \<longleftrightarrow>
     (\<exists>es. list_all2 (\<lambda>row e. row_entry params row = Inr e) (iterrows df) es \<and> G = add_all [] es)"
proof (cases "traverse (row_entry params) (iterrows df)")
  case (Inl e)
  then have "\<not> list_all2 (\<lambda>row e. row_entry params row = Inr e) (iterrows df) es" for es
    by (simp add: traverse_Inr_iff[symmetric])
  with Inl show ?thesis
    by (simp add: extract_results_per_param_def extract_loop_entries)
next
  case (Inr es0)
  then have "list_all2 (\<lambda>row e. row_entry params row = Inr e) (iterrows df) es \<longleftrightarrow> es = es0" for es
    by (auto simp: traverse_Inr_iff[symmetric])
  with Inr show ?thesis
    by (auto simp: extract_results_per_param_def extract_loop_entries)
qed

lemma row_entry_in_bucket:
  assumes "row_entry params row = Inr e"
  shows "in_bucket params k b row \<longleftrightarrow> fst e = k \<and> fst (snd e) = b"
    and "points_of params row = snd (snd e)"
  using assms
  by (auto simp: row_entry_def in_bucket_def points_of_def split: sum.splits)

lemma filter_entries:
  assumes "list_all2 (\<lambda>row e. row_entry params row = Inr e) rs es"
  shows "list_all2 (\<lambda>row e. row_entry params row = Inr e)
           (filter (in_bucket params k b) rs) (filter (\<lambda>e. fst e = k \<and> fst (snd e) = b) es)"
  using assms
  by (induction rs es rule: list_all2_induct) (auto simp: row_entry_in_bucket(1))

lemma concat_entries:
  assumes "list_all2 (\<lambda>row e. row_entry params row = Inr e) rs es"
  shows "concat (map (\<lambda>e. snd (snd e)) es) = concat (map (points_of params) rs)"
  using assms
  by (induction rs es rule: list_all2_induct) (auto simp: row_entry_in_bucket(2))

lemma sum_entries:
  assumes "list_all2 (\<lambda>row e. row_entry params row = Inr e) rs es"
  shows "sum_list (map (\<lambda>e. length (snd (snd e))) es) = sum_list (map (\<lambda>row. length (points_of params row)) rs)"
  using assms
  by (induction rs es rule: list_all2_induct) (auto simp: row_entry_in_bucket(2))

lemma bucket_of_extract:
  assumes "extract_results_per_param df params = Inr G"
  shows "bucket_of G k b =
     (case filter (in_bucket params k b) (iterrows df) of
        [] \<Rightarrow> None
      | h # hs \<Rightarrow> Some (concat (map (points_of params) (h # hs))))"
proof -
  from assms obtain es where es: "list_all2 (\<lambda>row e. row_entry params row = Inr e) (iterrows df) es"
    and G: "G = add_all [] es"
    by (auto simp: extract_results_iff)
  let ?hr = "filter (in_bucket params k b) (iterrows df)"
  let ?he = "filter (\<lambda>e. fst e = k \<and> fst (snd e) = b) es"
  have f: "list_all2 (\<lambda>row e. row_entry params row = Inr e) ?hr ?he"
    using es by (rule filter_entries)
  have c: "concat (map (\<lambda>e. snd (snd e)) ?he) = concat (map (points_of params) ?hr)"
    using f by (rule concat_entries)
  have n: "?he = [] \<longleftrightarrow> ?hr = []"
    using list_all2_lengthD[OF f] by (cases ?he; cases ?hr) simp_all
  have "bucket_of G k b = (case ?he of [] \<Rightarrow> None
      | h # hs \<Rightarrow> Some (concat (map (\<lambda>e. snd (snd e)) (h # hs))))"
    unfolding G bucket_of_add_all by (simp add: bucket_of_def split: list.splits)
  also have "\<dots> = (if ?he = [] then None else Some (concat (map (\<lambda>e. snd (snd e)) ?he)))"
    by (simp split: list.splits)
  also have "\<dots> = (if ?hr = [] then None else Some (concat (map (points_of params) ?hr)))"
    unfolding c n ..
  also have "\<dots> = (case ?hr of [] \<Rightarrow> None | h # hs \<Rightarrow> Some (concat (map (points_of params) (h # hs))))"
    by (simp split: list.splits)
  finally show ?thesis .
qed

lemma distinct_extract:
  assumes "extract_results_per_param df params = Inr G"
  shows "distinct (map fst G)" and "\<forall>k rs. map_of G k = Some rs \<longrightarrow> distinct (map fst rs)"
proof -
  from assms obtain es where G: "G = add_all [] es"
    by (auto simp: extract_results_iff)
  show "distinct (map fst G)"
    unfolding G by (rule distinct_add_all) simp
  show "\<forall>k rs. map_of G k = Some rs \<longrightarrow> distinct (map fst rs)"
    unfolding G by (rule inner_distinct_add_all) simp
qed

lemma total_points_extract:
  assumes "extract_results_per_param df params = Inr G"
  shows "total_points G = sum_list (map (\<lambda>row. length (points_of params row)) (iterrows df))"
proof -
  from assms obtain es where es: "list_all2 (\<lambda>row e. row_entry params row = Inr e) (iterrows df) es"
    and G: "G = add_all [] es"
    by (auto simp: extract_results_iff)
  show ?thesis
    unfolding G total_points_add_all sum_entries[OF es]
    by (simp add: total_points_def)
qed

lemma row_entry_of_extract:
  assumes "extract_results_per_param df params = Inr G" and "row \<in> set (iterrows df)"
  shows "\<exists>e. row_entry params row = Inr e"
proof -
  from assms(1) obtain es where es: "list_all2 (\<lambda>row e. row_entry params row = Inr e) (iterrows df) es"
    by (auto simp: extract_results_iff)
  from assms(2) obtain i where i: "i < length (iterrows df)" "row = iterrows df ! i"
    by (auto simp: in_set_conv_nth)
  with es have "row_entry params row = Inr (es ! i)"
    by (simp add: list_all2_conv_all_nth)
  then show ?thesis ..
qed

lemma keys_entries:
  assumes "list_all2 (\<lambda>row e. row_entry params row = Inr e) rs es"
  shows "fst ` set es = {k. \<exists>row\<in>set rs. tuple_of_secondary_values params row = Inr k}"
  using assms
proof (induction rs es rule: list_all2_induct)
  case Nil
  show ?case by simp
next
  case (Cons row rs e es)
  have "tuple_of_secondary_values params row = Inr (fst e)"
    using Cons.hyps(1) by (auto simp: row_entry_def split: sum.splits)
  then have "{k. \<exists>r\<in>set (row # rs). tuple_of_secondary_values params r = Inr k}
      = insert (fst e) {k. \<exists>r\<in>set rs. tuple_of_secondary_values params r = Inr k}"
    by auto
  then show ?case
    using Cons.IH by simp
qed

lemma keys_extract:
  assumes "extract_results_per_param df params = Inr G"
  shows "fst ` set G = {k. \<exists>row\<in>set (iterrows df). tuple_of_secondary_values params row = Inr k}"
proof -
  from assms obtain es where es: "list_all2 (\<lambda>row e. row_entry params row = Inr e) (iterrows df) es"
    and G: "G = add_all [] es"
    by (auto simp: extract_results_iff)
  show ?thesis
    unfolding G keys_add_all keys_entries[OF es] by simp
qed

subsection \<open>Grouping engine: buckets in encounter order\<close>

lemma grouping_result_eval:
  "extract_results_per_param grouping_frame grouping_params = Inr grouping_result"
  by (simp add: extract_results_per_param_def grouping_frame_def grouping_params_def
        grouping_result_def iterrows_def group_row_def tuple_of_secondary_values_def
        getitem_def result_point_def Let_def)

lemma grouping_hits_eval:
  "filter (in_bucket grouping_params [BoolCell True] (StrCell ''GetDirect'')) (iterrows grouping_frame)
     = [zip (columns grouping_frame) (rows grouping_frame ! 0),
        zip (columns grouping_frame) (rows grouping_frame ! 2)]"
  by (simp add: grouping_frame_def grouping_params_def iterrows_def in_bucket_def
        tuple_of_secondary_values_def getitem_def)

lemma in_bucket_of_entry:
  assumes "row_entry params row = Inr e"
  shows "\<exists>k b. in_bucket params k b row"
  using assms by (auto simp: row_entry_def in_bucket_def split: sum.splits)

lemma single_primary_point:
  assumes "row_entry params row = Inr e" and "primary params = [(n, column)]"
  shows "\<exists>pt. result_point row column = Inr pt \<and> points_of params row = [pt]"
  using assms by (auto simp: row_entry_def points_of_def split: sum.splits)

text \<open>
  C1. The grouping engine goes through the records in batch order. In the grouping it
  returns, no secondary key has two groups and no benchmark has two buckets in a group,
  so records with the same secondary values share one group and, there, records of
  different benchmarks have different buckets. The bucket of a secondary key and a
  benchmark exists exactly when some record has that key and benchmark, and it holds the
  points of those records in the order in which the batch lists them: nothing is sorted
  by the primary value. With one primary column every record gives one point, built
  from its primary value, score and error.
\<close>

theorem grouping_in_encounter_order:
  assumes "extract_results_per_param df params = Inr G"
  shows "distinct (map fst G)
    \<and> (\<forall>k rs. map_of G k = Some rs \<longrightarrow> distinct (map fst rs))
    \<and> bucket_of G k b =
        (case filter (in_bucket params k b) (iterrows df) of
           [] \<Rightarrow> None
         | h # hs \<Rightarrow> Some (concat (map (points_of params) (h # hs))))
    \<and> (\<forall>row\<in>set (iterrows df). \<exists>k b. in_bucket params k b row)
    \<and> (primary params = [(n, column)] \<longrightarrow>
         (\<forall>row\<in>set (iterrows df).
            \<exists>pt. result_point row column = Inr pt \<and> points_of params row = [pt]))"
proof -
  have 1: "distinct (map fst G)"
    using assms by (rule distinct_extract(1))
  have 2: "\<forall>k rs. map_of G k = Some rs \<longrightarrow> distinct (map fst rs)"
    using assms by (rule distinct_extract(2))
  have 3: "bucket_of G k b =
        (case filter (in_bucket params k b) (iterrows df) of
           [] \<Rightarrow> None
         | h # hs \<Rightarrow> Some (concat (map (points_of params) (h # hs))))"
    using assms by (rule bucket_of_extract)
  have 4: "\<forall>row\<in>set (iterrows df). \<exists>k b. in_bucket params k b row"
    using row_entry_of_extract[OF assms] in_bucket_of_entry by blast
  have 5: "primary params = [(n, column)] \<longrightarrow>
         (\<forall>row\<in>set (iterrows df).
            \<exists>pt. result_point row column = Inr pt \<and> points_of params row = [pt])"
    using row_entry_of_extract[OF assms] single_primary_point by blast
  from 1 2 3 4 5 show ?thesis by (intro conjI)
qed

theorem grouping_in_encounter_order_witness:
  "extract_results_per_param grouping_frame grouping_params = Inr grouping_result
   \<and> filter (in_bucket grouping_params [BoolCell True] (StrCell ''GetDirect'')) (iterrows grouping_frame)
       = [zip (columns grouping_frame) (rows grouping_frame ! 0),
          zip (columns grouping_frame) (rows grouping_frame ! 2)]
   \<and> bucket_of grouping_result [BoolCell True] (StrCell ''GetDirect'')
       = Some (concat (map (points_of grouping_params)
                 [zip (columns grouping_frame) (rows grouping_frame ! 0),
                  zip (columns grouping_frame) (rows grouping_frame ! 2)]))
   \<and> bucket_of grouping_result [BoolCell True] (StrCell ''GetDirect'')
       = Some [\<lparr>r_value = IntCell 64, r_score = FloatCell (241 / 2), r_error = FloatCell (16 / 5)\<rparr>,
               \<lparr>r_value = IntCell 8, r_score = FloatCell 50, r_error = FloatCell 2\<rparr>]
   \<and> bucket_of grouping_result [BoolCell True] (StrCell ''GetByte'')
       = Some [\<lparr>r_value = IntCell 64, r_score = FloatCell 100, r_error = FloatCell 1\<rparr>]"
proof -
  note inst = grouping_in_encounter_order [OF grouping_result_eval,
      of "[BoolCell True]" "StrCell ''GetDirect''" "''valueSize''" "''Param: valueSize''"]
  have a: "bucket_of grouping_result [BoolCell True] (StrCell ''GetDirect'')
       = Some (concat (map (points_of grouping_params)
                 [zip (columns grouping_frame) (rows grouping_frame ! 0),
                  zip (columns grouping_frame) (rows grouping_frame ! 2)]))"
    using inst[THEN conjunct2, THEN conjunct2, THEN conjunct1]
    unfolding grouping_hits_eval by simp
  have b: "bucket_of grouping_result [BoolCell True] (StrCell ''GetDirect'')
       = Some [\<lparr>r_value = IntCell 64, r_score = FloatCell (241 / 2), r_error = FloatCell (16 / 5)\<rparr>,
               \<lparr>r_value = IntCell 8, r_score = FloatCell 50, r_error = FloatCell 2\<rparr>]"
    by (simp add: bucket_of_def grouping_result_def)
  have c: "bucket_of grouping_result [BoolCell True] (StrCell ''GetByte'')
       = Some [\<lparr>r_value = IntCell 64, r_score = FloatCell 100, r_error = FloatCell 1\<rparr>]"
    by (simp add: bucket_of_def grouping_result_def)
  from grouping_result_eval grouping_hits_eval a b c show ?thesis
    by (intro conjI)
qed

lemma split_params_primary:
  assumes "split_params ps n = Inr (params, ps')"
  shows "\<exists>label. primary params = [(n, label)]"
  using assms by (auto simp: split_params_def Let_def split: option.splits)

lemma sum_list_ones: "(\<And>x. x \<in> set xs \<Longrightarrow> f x = (1::nat)) \<Longrightarrow> sum_list (map f xs) = length xs"
  by (induction xs) simp_all

lemma length_iterrows: "length (iterrows df) = len df"
  by (simp add: iterrows_def len_def)

text \<open>
  C9. The primary mapping that \<open>split_params\<close> returns has exactly one entry, so every
  record of the batch contributes exactly one point: the points in all buckets of all
  secondary keys together are as many as the batch has rows.
\<close>

theorem one_point_per_record:
  assumes "split_params ps n = Inr (params, ps')"
    and "extract_results_per_param df params = Inr G"
  shows "length (primary params) = 1
    \<and> (\<forall>row\<in>set (iterrows df). length (points_of params row) = 1)
    \<and> total_points G = len df"
proof -
  from assms(1) obtain label where p: "primary params = [(n, label)]"
    using split_params_primary by blast
  have one: "length (points_of params row) = 1" if "row \<in> set (iterrows df)" for row
  proof -
    from row_entry_of_extract[OF assms(2) that] obtain e where "row_entry params row = Inr e" ..
    from single_primary_point[OF this p] show ?thesis by auto
  qed
  then have "sum_list (map (\<lambda>row. length (points_of params row)) (iterrows df)) = length (iterrows df)"
    by (intro sum_list_ones) blast
  then have "total_points G = length (iterrows df)"
    unfolding total_points_extract[OF assms(2)] .
  with p one show ?thesis
    by (simp add: length_iterrows)
qed

theorem one_point_per_record_witness:
  "split_params two_params ''valueSize'' = Inr (grouping_params, secondary grouping_params)
   \<and> extract_results_per_param grouping_frame grouping_params = Inr grouping_result
   \<and> total_points grouping_result = 4
   \<and> len grouping_frame = 4"
proof -
  have s: "split_params two_params ''valueSize'' = Inr (grouping_params, secondary grouping_params)"
    by (simp add: split_params_def two_params_def grouping_params_def Let_def)
  have l: "len grouping_frame = 4"
    by (simp add: len_def grouping_frame_def)
  from one_point_per_record[OF s grouping_result_eval] have "total_points grouping_result = len grouping_frame"
    by blast
  with s l grouping_result_eval show ?thesis
    by simp
qed

subsection \<open>Grouping engine: counting points, and batches without secondary parameters\<close>

lemma distinct_singleton_keys:
  assumes "distinct (map fst G)" and "fst ` set G = {k}"
  shows "\<exists>v. G = [(k, v)]"
proof (cases G)
  case Nil
  with assms(2) show ?thesis by simp
next
  case (Cons p G')
  have "fst p = k" using assms(2) Cons by auto
  moreover have "G' = []"
  proof (cases G')
    case Nil
    then show ?thesis .
  next
    case (Cons q G'')
    with assms(2) \<open>G = p # G'\<close> have "fst q = k" by auto
    with assms(1) \<open>G = p # G'\<close> Cons \<open>fst p = k\<close> show ?thesis by simp
  qed
  ultimately show ?thesis
    using Cons by (cases p) simp
qed

text \<open>
  C10. With no secondary parameter the secondary key of every record is the empty
  tuple. The grouping of a batch that reaches the grouping engine, which has at least
  one row, then has exactly one group, keyed by the empty tuple, and the bucket of
  every record's benchmark is in that group.
\<close>

theorem no_secondary_single_group:
  assumes "secondary params = []"
    and "extract_results_per_param df params = Inr G"
    and "len df > 0"
  shows "(\<forall>row. tuple_of_secondary_values params row = Inr [])
    \<and> (\<exists>rs. G = [([], rs)]
          \<and> (\<forall>row\<in>set (iterrows df).
                \<exists>b pts. getitem row ''Benchmark'' = Inr b \<and> map_of rs b = Some pts))"
proof -
  have key: "tuple_of_secondary_values params row = Inr []" for row
    using assms(1) by (simp add: tuple_of_secondary_values_def)
  from assms(3) obtain r0 where r0: "r0 \<in> set (iterrows df)"
    by (cases "iterrows df") (auto simp: length_iterrows[symmetric])
  have "fst ` set G = {[]}"
    unfolding keys_extract[OF assms(2)] using key r0 by auto
  then have "\<exists>rs. G = [([], rs)]"
    by (rule distinct_singleton_keys[OF distinct_extract(1)[OF assms(2)]])
  then obtain rs where G: "G = [([], rs)]" ..
  have "\<exists>b pts. getitem row ''Benchmark'' = Inr b \<and> map_of rs b = Some pts"
    if row: "row \<in> set (iterrows df)" for row
  proof -
    from row_entry_of_extract[OF assms(2) row] obtain e where e: "row_entry params row = Inr e" ..
    then obtain b where b: "getitem row ''Benchmark'' = Inr b"
      by (auto simp: row_entry_def split: sum.splits)
    have ib: "in_bucket params [] b row"
      using key b by (simp add: in_bucket_def)
    then have "filter (in_bucket params [] b) (iterrows df) \<noteq> []"
      using row by (simp add: filter_empty_conv) (rule bexI)
    then obtain h hs where "filter (in_bucket params [] b) (iterrows df) = h # hs"
      by (cases "filter (in_bucket params [] b) (iterrows df)") simp_all
    then have "bucket_of G [] b = Some (concat (map (points_of params) (h # hs)))"
      unfolding bucket_of_extract[OF assms(2)] by simp
    then obtain pts where "bucket_of G [] b = Some pts" ..
    then have "map_of rs b = Some pts"
      by (simp add: G bucket_of_def)
    with b show ?thesis by blast
  qed
  then have "\<forall>row\<in>set (iterrows df).
      \<exists>b pts. getitem row ''Benchmark'' = Inr b \<and> map_of rs b = Some pts" ..
  with G have "\<exists>rs. G = [([], rs)]
          \<and> (\<forall>row\<in>set (iterrows df).
                \<exists>b pts. getitem row ''Benchmark'' = Inr b \<and> map_of rs b = Some pts)"
    by (intro exI conjI)
  moreover have "\<forall>row. tuple_of_secondary_values params row = Inr []"
    using key ..
  ultimately show ?thesis by (intro conjI)
qed

lemma sizes_result_eval:
  "extract_results_per_param (sizes_frame [IntCell 64, IntCell 8]) sizes_params = Inr sizes_result"
  by (simp add: extract_results_per_param_def sizes_frame_def sizes_params_def
        sizes_result_def iterrows_def group_row_def tuple_of_secondary_values_def
        getitem_def result_point_def Let_def)

theorem no_secondary_single_group_witness:
  "secondary sizes_params = []
   \<and> extract_results_per_param (sizes_frame [IntCell 64, IntCell 8]) sizes_params = Inr sizes_result
   \<and> len (sizes_frame [IntCell 64, IntCell 8]) > 0
   \<and> map fst sizes_result = [[]]
   \<and> (\<exists>rs. sizes_result = [([], rs)])"
proof -
  have s: "secondary sizes_params = []"
    by (simp add: sizes_params_def)
  have l: "len (sizes_frame [IntCell 64, IntCell 8]) > 0"
    by (simp add: len_def sizes_frame_def)
  from no_secondary_single_group[OF s sizes_result_eval l]
  obtain rs where rs: "sizes_result = [([], rs)]"
    by blast
  have m: "map fst sizes_result = [[]]"
    unfolding rs by simp
  from rs have "\<exists>rs. sizes_result = [([], rs)]" ..
  with s sizes_result_eval l m show ?thesis
    by (intro conjI)
qed

subsection \<open>Grouping engine: when it returns\<close>

lemma getitem_wf:
  assumes "length vals = length cols" and "l \<in> set cols"
  shows "\<exists>v. getitem (zip cols vals) l = Inr v"
proof -
  from assms obtain v where "map_of (zip cols vals) l = Some v"
    using map_of_zip_is_Some[of cols vals l] by auto
  then show ?thesis by (simp add: getitem_def)
qed

lemma row_entry_wf:
  assumes len: "length vals = length cols"
    and bm: "''Benchmark'' \<in> set cols" and sc: "''Score'' \<in> set cols"
    and er: "''Score Error (99.9%)'' \<in> set cols"
    and pr: "snd ` set (primary params) \<subseteq> set cols"
    and se: "snd ` set (secondary params) \<subseteq> set cols"
  shows "\<exists>e. row_entry params (zip cols vals) = Inr e"
proof -
  let ?row = "zip cols vals"
  have "\<forall>nc\<in>set (secondary params). \<exists>v. (case nc of (name, column) \<Rightarrow> getitem ?row column) = Inr v"
    using se getitem_wf[OF len] by (auto simp: subset_iff)
  then obtain k where k: "tuple_of_secondary_values params ?row = Inr k"
    unfolding tuple_of_secondary_values_def
    using traverse_total[of "\<lambda>(name, column). getitem ?row column" "secondary params"] by blast
  obtain b where b: "getitem ?row ''Benchmark'' = Inr b"
    using getitem_wf[OF len bm] by blast
  obtain s where s: "getitem ?row ''Score'' = Inr s"
    using getitem_wf[OF len sc] by blast
  obtain x where x: "getitem ?row ''Score Error (99.9%)'' = Inr x"
    using getitem_wf[OF len er] by blast
  have "\<exists>pt. result_point ?row column = Inr pt" if "column \<in> set cols" for column
  proof -
    from getitem_wf[OF len that] obtain v where "getitem ?row column = Inr v" ..
    with s x show ?thesis by (simp add: result_point_def)
  qed
  then have "\<forall>nc\<in>set (primary params). \<exists>pt. (case nc of (name, column) \<Rightarrow> result_point ?row column) = Inr pt"
    using pr by (auto simp: subset_iff)
  then obtain pts where "traverse (\<lambda>(name, column). result_point ?row column) (primary params) = Inr pts"
    using traverse_total[of "\<lambda>(name, column). result_point ?row column" "primary params"] by blast
  with k b show ?thesis
    by (simp add: row_entry_def)
qed

lemma extract_results_returns:
  assumes wf: "wf_frame df"
    and bm: "''Benchmark'' \<in> set (columns df)" and sc: "''Score'' \<in> set (columns df)"
    and er: "''Score Error (99.9%)'' \<in> set (columns df)"
    and pr: "snd ` set (primary params) \<subseteq> set (columns df)"
    and se: "snd ` set (secondary params) \<subseteq> set (columns df)"
  shows "\<exists>G. extract_results_per_param df params = Inr G"
proof -
  have "\<forall>row\<in>set (iterrows df). \<exists>e. row_entry params row = Inr e"
  proof
    fix row assume "row \<in> set (iterrows df)"
    then obtain vals where v: "vals \<in> set (rows df)" and row: "row = zip (columns df) vals"
      by (auto simp: iterrows_def)
    from wf v have "length vals = length (columns df)"
      by (simp add: wf_frame_def list_all_iff)
    from row_entry_wf[OF this bm sc er pr se] row show "\<exists>e. row_entry params row = Inr e"
      by simp
  qed
  then obtain es where "traverse (row_entry params) (iterrows df) = Inr es"
    using traverse_total[of "row_entry params" "iterrows df"] by blast
  then show ?thesis
    by (simp add: extract_results_per_param_def extract_loop_entries)
qed

lemma extract_params_loop_labels:
  "snd ` set (extract_params_loop params cols) \<subseteq> snd ` set params \<union> set cols"
proof (induction cols arbitrary: params)
  case Nil
  show ?case by simp
next
  case (Cons c cols)
  have u: "snd ` set (AList.update k c params) \<subseteq> insert c (snd ` set params)" for k
    by (induction params) auto
  show ?case
  proof (cases "is_param_column c")
    case True
    have "snd ` set (extract_params_loop (AList.update (param_name c) c params) cols)
        \<subseteq> snd ` set (AList.update (param_name c) c params) \<union> set cols"
      by (rule Cons.IH)
    also have "\<dots> \<subseteq> insert c (snd ` set params) \<union> set cols"
      using u[of "param_name c"] by blast
    finally show ?thesis
      unfolding extract_params_loop_step using True by auto
  next
    case False
    have "snd ` set (extract_params_loop params cols) \<subseteq> snd ` set params \<union> set cols"
      by (rule Cons.IH)
    then show ?thesis
      unfolding extract_params_loop_step using False by auto
  qed
qed

lemma extract_params_labels: "snd ` set (extract_params df) \<subseteq> set (columns df)"
  using extract_params_loop_labels[of "[]" "columns df"] by (simp add: extract_params_def)

lemma extract_results_empty_batch:
  "rows df = [] \<Longrightarrow> extract_results_per_param df params = Inr []"
  by (simp add: extract_results_per_param_def iterrows_def)

subsection \<open>Pipeline driver: which errors a stage can raise\<close>

lemma last_dot_segment_Inl: "last_dot_segment x = Inl e \<Longrightarrow> e = AttributeError"
  by (auto simp: last_dot_segment_def split: cell.splits)

lemma apply_column_Inl:
  assumes "apply_column ''Benchmark'' last_dot_segment df = Inl e"
  shows "e = KeyError (LabelKey ''Benchmark'') \<or> e = AttributeError"
proof (cases "''Benchmark'' \<in> set (columns df)")
  case False
  with assms show ?thesis by (simp add: apply_column_def)
next
  case True
  with assms have "traverse
      (\<lambda>r. traverse (\<lambda>(l, v). if l = ''Benchmark'' then last_dot_segment v else Inr v)
             (zip (columns df) r)) (rows df) = Inl e"
    by (simp add: apply_column_def split: sum.splits)
  then obtain r where
    "traverse (\<lambda>(l, v). if l = ''Benchmark'' then last_dot_segment v else Inr v) (zip (columns df) r) = Inl e"
    by (blast dest: traverse_Inl)
  then obtain lv where "(case lv of (l, v) \<Rightarrow> if l = ''Benchmark'' then last_dot_segment v else Inr v) = Inl e"
    by (blast dest: traverse_Inl)
  then have "e = AttributeError"
    by (cases lv) (auto split: if_splits dest: last_dot_segment_Inl)
  then show ?thesis ..
qed

lemma normalize_loop_Inl:
  "normalize_loop merge normalized files = Inl e
     \<Longrightarrow> e = KeyError (LabelKey ''Benchmark'') \<or> e = AttributeError \<or> e = LibraryError"
proof (induction files arbitrary: normalized)
  case Nil
  then show ?case by simp
next
  case (Cons f fs)
  show ?case
  proof (cases "apply_column ''Benchmark'' last_dot_segment (decimate f)")
    case (Inl e')
    with Cons.prems have "e' = e" by simp
    with Inl apply_column_Inl show ?thesis by blast
  next
    case (Inr df)
    show ?thesis
    proof (cases normalized)
      case None
      with Inr Cons.prems have "normalize_loop merge (Some df) fs = Inl e" by simp
      then show ?thesis by (rule Cons.IH)
    next
      case (Some n)
      show ?thesis
      proof (cases "merge n df")
        case None
        with Inr Some Cons.prems show ?thesis by simp
      next
        case (Some m)
        with Inr \<open>normalized = Some n\<close> Cons.prems
        have "normalize_loop merge (Some m) fs = Inl e" by simp
        then show ?thesis by (rule Cons.IH)
      qed
    qed
  qed
qed

lemma normalize_not_EmptyResult:
  assumes "normalize_data_frame_from_path merge files = Inl e"
  shows "\<not> EmptyResult e"
proof (cases "normalize_loop merge None files")
  case (Inl e')
  with assms have "e' = e" by (simp add: normalize_data_frame_from_path_def)
  with Inl normalize_loop_Inl[of merge None files e] show ?thesis
    by (auto simp: EmptyResult_def)
next
  case (Inr n)
  with assms show ?thesis
    by (cases n) (auto simp: normalize_data_frame_from_path_def EmptyResult_def)
qed

lemma filter_for_benchmarks_not_EmptyResult:
  assumes "filter_for_benchmarks re_compile df rb = Inl e"
  shows "\<not> EmptyResult e"
proof (cases rb)
  case None
  with assms show ?thesis by (simp add: filter_for_benchmarks_def)
next
  case (Some s)
  show ?thesis
  proof (cases "s = []")
    case True
    with assms Some show ?thesis by (simp add: filter_for_benchmarks_def)
  next
    case ne: False
    show ?thesis
    proof (cases "\<forall>x\<in>set (str_split CHR '','' s). leading_char_allowed x")
      case True
      from assms Some have "filter_for_benchmarks re_compile df (Some s) = Inl e"
        by simp
      from filter_for_benchmarks_valid_errors[OF ne True this]
      show ?thesis by (auto simp: EmptyResult_def)
    next
      case False
      from filter_for_benchmarks_invalid[OF ne False, of re_compile df] assms Some
      show ?thesis by (auto simp: EmptyResult_def)
    qed
  qed
qed

lemma filter_for_range_not_EmptyResult:
  assumes "filter_for_range df p r = Inl e"
  shows "\<not> EmptyResult e"
proof (cases "count_list r CHR ''<'' = 1")
  case False
  with assms show ?thesis by (simp add: filter_for_range_no_filter)
next
  case True
  then have "length (str_split CHR ''<'' r) = 2" by (simp add: length_str_split)
  then obtain l h where sp: "str_split CHR ''<'' r = [l, h]"
    by (auto simp: length_two_iff)
  show ?thesis
  proof (cases "\<exists>lo hi. lower_bound l = Some lo \<and> upper_bound h = Some hi \<and> lo \<le> hi")
    case False
    then have "lower_bound l = None \<or> upper_bound h = None
        \<or> (\<exists>lo hi. lower_bound l = Some lo \<and> upper_bound h = Some hi \<and> hi < lo)"
      by (cases "lower_bound l"; cases "upper_bound h") auto
    then obtain e' where "filter_for_range df p r = Inl e'" "InvalidRange e'"
      using filter_for_range_invalid[OF sp, of df p] by blast
    with assms have "InvalidRange e" by simp
    then show ?thesis
      by (auto simp: InvalidRange_def EmptyResult_def split: error.splits message.splits)
  next
    case True
    then obtain lo hi where "lower_bound l = Some lo" "upper_bound h = Some hi" "lo \<le> hi"
      by blast
    with assms have "e = KeyError (LabelKey (''Param: '' @ p)) \<or> e = ValueError"
      by (auto simp: filter_for_range_sides[OF sp] split: sum.splits
               dest!: get_column_Inl traverse_Inl in_range_Inl)
    then show ?thesis by (auto simp: EmptyResult_def)
  qed
qed

lemma split_params_not_EmptyResult:
  "split_params ps n = Inl e \<Longrightarrow> \<not> EmptyResult e"
  by (auto simp: split_params_def EmptyResult_def Let_def split: option.splits)

lemma getitem_Inl: "getitem row l = Inl e \<Longrightarrow> e = KeyError (LabelKey l)"
  by (auto simp: getitem_def split: option.splits)

lemma result_point_Inl: "result_point row column = Inl e \<Longrightarrow> \<exists>k. e = KeyError k"
  by (auto simp: result_point_def split: sum.splits dest: getitem_Inl)

lemma row_entry_Inl:
  assumes "row_entry params row = Inl e"
  shows "\<exists>k. e = KeyError k"
proof (cases "tuple_of_secondary_values params row")
  case (Inl e')
  with assms have "e' = e" by (simp add: row_entry_def)
  with Inl have "traverse (\<lambda>(name, column). getitem row column) (secondary params) = Inl e"
    by (simp add: tuple_of_secondary_values_def)
  from traverse_Inl[OF this]
  obtain column where "getitem row column = Inl e"
    by auto
  then show ?thesis by (auto dest: getitem_Inl)
next
  case k: (Inr k)
  show ?thesis
  proof (cases "getitem row ''Benchmark''")
    case (Inl e')
    with assms k show ?thesis by (auto simp: row_entry_def dest: getitem_Inl)
  next
    case (Inr b)
    with assms k have "traverse (\<lambda>(name, column). result_point row column) (primary params) = Inl e"
      by (simp add: row_entry_def split: sum.splits)
    from traverse_Inl[OF this]
    obtain column where "result_point row column = Inl e"
      by auto
    then show ?thesis by (auto dest: result_point_Inl)
  qed
qed

lemma extract_results_not_EmptyResult:
  assumes "extract_results_per_param df params = Inl e"
  shows "\<not> EmptyResult e"
proof -
  from assms have "traverse (row_entry params) (iterrows df) = Inl e"
    by (simp add: extract_results_per_param_def extract_loop_entries split: sum.splits)
  then obtain row where "row_entry params row = Inl e"
    by (blast dest: traverse_Inl)
  then obtain k where "e = KeyError k"
    by (blast dest: row_entry_Inl)
  then show ?thesis by (simp add: EmptyResult_def)
qed

subsection \<open>Pipeline driver: the checkpoints\<close>

lemma process_benchmarks_empty_cause:
  assumes R: "process_benchmarks re_compile merge pe files p rb r = Inl e" and E: "EmptyResult e"
  shows "pe \<and> (\<exists>d0. normalize_data_frame_from_path merge files = Inr d0
           \<and> (len d0 = 0
               \<or> (\<exists>d1. filter_for_benchmarks re_compile d0 rb = Inr d1
                     \<and> (len d1 = 0
                         \<or> (\<exists>d2. filter_for_range d1 p r = Inr d2 \<and> len d2 = 0)))))"
proof -
  have pe: pe
    using R E by (cases pe) (auto simp: process_benchmarks_def EmptyResult_def)
  obtain d0 where d0: "normalize_data_frame_from_path merge files = Inr d0"
    using R E pe normalize_not_EmptyResult[of merge files e]
    by (cases "normalize_data_frame_from_path merge files") (auto simp: process_benchmarks_def)
  show ?thesis
  proof (cases "len d0 = 0")
    case True
    with pe d0 show ?thesis by blast
  next
    case n0: False
    obtain d1 where d1: "filter_for_benchmarks re_compile d0 rb = Inr d1"
      using R E pe d0 n0 filter_for_benchmarks_not_EmptyResult[of re_compile d0 rb e]
      by (cases "filter_for_benchmarks re_compile d0 rb") (auto simp: process_benchmarks_def)
    show ?thesis
    proof (cases "len d1 = 0")
      case True
      with pe d0 d1 show ?thesis by blast
    next
      case n1: False
      obtain d2 where d2: "filter_for_range d1 p r = Inr d2"
        using R E pe d0 n0 d1 n1 filter_for_range_not_EmptyResult[of d1 p r e]
        by (cases "filter_for_range d1 p r") (auto simp: process_benchmarks_def)
      show ?thesis
      proof (cases "len d2 = 0")
        case True
        with pe d0 d1 d2 show ?thesis by blast
      next
        case n2: False
        have rest: "(case split_params (extract_params d2) p of
                 Inl e \<Rightarrow> Inl e
               | Inr (params, consumed) \<Rightarrow>
                   (case extract_results_per_param d2 params of
                      Inl e \<Rightarrow> Inl e
                    | Inr resultSets \<Rightarrow> Inr (params, resultSets))) = Inl e"
          using R pe d0 n0 d1 n1 d2 n2 by (simp add: process_benchmarks_def)
        have False
        proof (cases "split_params (extract_params d2) p")
          case (Inl e')
          with rest E split_params_not_EmptyResult[of "extract_params d2" p e] show False
            by simp
        next
          case (Inr pc)
          obtain params consumed where pc: "pc = (params, consumed)" by (cases pc)
          from rest Inr pc have "extract_results_per_param d2 params = Inl e"
            by (cases "extract_results_per_param d2 params") simp_all
          with E extract_results_not_EmptyResult show False by blast
        qed
        then show ?thesis ..
      qed
    qed
  qed
qed

lemma process_benchmarks_success:
  assumes R: "process_benchmarks re_compile merge pe files p rb r = Inr (params, G)"
  shows "\<exists>d0 d1 d2 consumed. pe
      \<and> normalize_data_frame_from_path merge files = Inr d0 \<and> len d0 > 0
      \<and> filter_for_benchmarks re_compile d0 rb = Inr d1 \<and> len d1 > 0
      \<and> filter_for_range d1 p r = Inr d2 \<and> len d2 > 0
      \<and> split_params (extract_params d2) p = Inr (params, consumed)
      \<and> extract_results_per_param d2 params = Inr G"
proof -
  have pe: pe
    using R by (cases pe) (auto simp: process_benchmarks_def)
  obtain d0 where d0: "normalize_data_frame_from_path merge files = Inr d0"
    using R pe by (cases "normalize_data_frame_from_path merge files") (auto simp: process_benchmarks_def)
  have n0: "len d0 > 0"
    using R pe d0 by (cases "len d0 = 0") (auto simp: process_benchmarks_def)
  obtain d1 where d1: "filter_for_benchmarks re_compile d0 rb = Inr d1"
    using R pe d0 n0 by (cases "filter_for_benchmarks re_compile d0 rb") (auto simp: process_benchmarks_def)
  have n1: "len d1 > 0"
    using R pe d0 n0 d1 by (cases "len d1 = 0") (auto simp: process_benchmarks_def)
  obtain d2 where d2: "filter_for_range d1 p r = Inr d2"
    using R pe d0 n0 d1 n1 by (cases "filter_for_range d1 p r") (auto simp: process_benchmarks_def)
  have n2: "len d2 > 0"
    using R pe d0 n0 d1 n1 d2 by (cases "len d2 = 0") (auto simp: process_benchmarks_def)
  have rest: "(case split_params (extract_params d2) p of
                 Inl e \<Rightarrow> Inl e
               | Inr (params, consumed) \<Rightarrow>
                   (case extract_results_per_param d2 params of
                      Inl e \<Rightarrow> Inl e
                    | Inr resultSets \<Rightarrow> Inr (params, resultSets))) = Inr (params, G)"
    using R pe d0 n0 d1 n1 d2 n2 by (simp add: process_benchmarks_def)
  then obtain pc where sp: "split_params (extract_params d2) p = Inr pc"
    by (cases "split_params (extract_params d2) p") simp_all
  obtain params' consumed where pc: "pc = (params', consumed)" by (cases pc)
  from rest sp pc have ex: "extract_results_per_param d2 params' = Inr G \<and> params' = params"
    by (cases "extract_results_per_param d2 params'") simp_all
  with pe d0 n0 d1 n1 d2 n2 sp pc show ?thesis
    by blast
qed

text \<open>
  C8. The driver raises the empty-result error at exactly three checkpoints: after
  loading, after the benchmark filter and after the range filter, each time the batch
  at that checkpoint has no rows, and whatever the later stages would do with it. An
  empty-result error of the driver has no other cause. The filters themselves never
  raise it: they return the empty batch. When the driver gets as far as the renderer,
  the batch was non-empty at every checkpoint, so no later stage has run on an empty
  batch.
\<close>

theorem pipeline_empty_result_checkpoints:
  "(pe \<and> normalize_data_frame_from_path merge files = Inr df0 \<and> len df0 = 0 \<longrightarrow>
      process_benchmarks re_compile merge pe files p rb r = Inl (BenchmarkError ZeroResultsRead))
   \<and> (pe \<and> normalize_data_frame_from_path merge files = Inr df0 \<and> len df0 > 0
        \<and> filter_for_benchmarks re_compile df0 rb = Inr df1 \<and> len df1 = 0 \<longrightarrow>
      process_benchmarks re_compile merge pe files p rb r = Inl (BenchmarkError (ZeroAfterBenchmarks rb)))
   \<and> (pe \<and> normalize_data_frame_from_path merge files = Inr df0 \<and> len df0 > 0
        \<and> filter_for_benchmarks re_compile df0 rb = Inr df1 \<and> len df1 > 0
        \<and> filter_for_range df1 p r = Inr df2 \<and> len df2 = 0 \<longrightarrow>
      process_benchmarks re_compile merge pe files p rb r = Inl (BenchmarkError (ZeroAfterRange r)))
   \<and> EmptyResult (BenchmarkError ZeroResultsRead)
   \<and> EmptyResult (BenchmarkError (ZeroAfterBenchmarks rb))
   \<and> EmptyResult (BenchmarkError (ZeroAfterRange r))
   \<and> (\<forall>e. process_benchmarks re_compile merge pe files p rb r = Inl e \<and> EmptyResult e \<longrightarrow>
         pe \<and> (\<exists>d0. normalize_data_frame_from_path merge files = Inr d0
           \<and> (len d0 = 0
               \<or> (\<exists>d1. filter_for_benchmarks re_compile d0 rb = Inr d1
                     \<and> (len d1 = 0
                         \<or> (\<exists>d2. filter_for_range d1 p r = Inr d2 \<and> len d2 = 0))))))
   \<and> (\<forall>d e. filter_for_benchmarks re_compile d rb = Inl e \<longrightarrow> \<not> EmptyResult e)
   \<and> (\<forall>d e. filter_for_range d p r = Inl e \<longrightarrow> \<not> EmptyResult e)
   \<and> (\<forall>params G. process_benchmarks re_compile merge pe files p rb r = Inr (params, G) \<longrightarrow>
         (\<exists>d0 d1 d2 consumed. pe
            \<and> normalize_data_frame_from_path merge files = Inr d0 \<and> len d0 > 0
            \<and> filter_for_benchmarks re_compile d0 rb = Inr d1 \<and> len d1 > 0
            \<and> filter_for_range d1 p r = Inr d2 \<and> len d2 > 0
            \<and> split_params (extract_params d2) p = Inr (params, consumed)
            \<and> extract_results_per_param d2 params = Inr G))"
proof -
  have a: "pe \<and> normalize_data_frame_from_path merge files = Inr df0 \<and> len df0 = 0 \<longrightarrow>
      process_benchmarks re_compile merge pe files p rb r = Inl (BenchmarkError ZeroResultsRead)"
    by (simp add: process_benchmarks_def)
  have b: "pe \<and> normalize_data_frame_from_path merge files = Inr df0 \<and> len df0 > 0
        \<and> filter_for_benchmarks re_compile df0 rb = Inr df1 \<and> len df1 = 0 \<longrightarrow>
      process_benchmarks re_compile merge pe files p rb r = Inl (BenchmarkError (ZeroAfterBenchmarks rb))"
    by (simp add: process_benchmarks_def)
  have c: "pe \<and> normalize_data_frame_from_path merge files = Inr df0 \<and> len df0 > 0
        \<and> filter_for_benchmarks re_compile df0 rb = Inr df1 \<and> len df1 > 0
        \<and> filter_for_range df1 p r = Inr df2 \<and> len df2 = 0 \<longrightarrow>
      process_benchmarks re_compile merge pe files p rb r = Inl (BenchmarkError (ZeroAfterRange r))"
    by (simp add: process_benchmarks_def)
  have k: "EmptyResult (BenchmarkError ZeroResultsRead)
      \<and> EmptyResult (BenchmarkError (ZeroAfterBenchmarks rb))
      \<and> EmptyResult (BenchmarkError (ZeroAfterRange r))"
    by (simp add: EmptyResult_def)
  have d: "\<forall>e. process_benchmarks re_compile merge pe files p rb r = Inl e \<and> EmptyResult e \<longrightarrow>
         pe \<and> (\<exists>d0. normalize_data_frame_from_path merge files = Inr d0
           \<and> (len d0 = 0
               \<or> (\<exists>d1. filter_for_benchmarks re_compile d0 rb = Inr d1
                     \<and> (len d1 = 0
                         \<or> (\<exists>d2. filter_for_range d1 p r = Inr d2 \<and> len d2 = 0)))))"
    using process_benchmarks_empty_cause by blast
  have f1: "\<forall>d e. filter_for_benchmarks re_compile d rb = Inl e \<longrightarrow> \<not> EmptyResult e"
    using filter_for_benchmarks_not_EmptyResult by blast
  have f2: "\<forall>d e. filter_for_range d p r = Inl e \<longrightarrow> \<not> EmptyResult e"
    using filter_for_range_not_EmptyResult by blast
  have g: "\<forall>params G. process_benchmarks re_compile merge pe files p rb r = Inr (params, G) \<longrightarrow>
         (\<exists>d0 d1 d2 consumed. pe
            \<and> normalize_data_frame_from_path merge files = Inr d0 \<and> len d0 > 0
            \<and> filter_for_benchmarks re_compile d0 rb = Inr d1 \<and> len d1 > 0
            \<and> filter_for_range d1 p r = Inr d2 \<and> len d2 > 0
            \<and> split_params (extract_params d2) p = Inr (params, consumed)
            \<and> extract_results_per_param d2 params = Inr G)"
    using process_benchmarks_success by blast
  from a b c k d f1 f2 g show ?thesis
    by (intro conjI) (elim conjE; assumption)+
qed

lemma load_empty_eval:
  "normalize_data_frame_from_path no_merge [names_frame []] = Inr (names_frame [])"
  by (simp add: normalize_data_frame_from_path_def decimate_def apply_column_def names_frame_def)

lemma load_one_eval:
  "normalize_data_frame_from_path no_merge [names_frame [''org.Bench.GetDirect'']]
     = Inr (names_frame [''GetDirect''])"
  by (simp add: normalize_data_frame_from_path_def decimate_def apply_column_def names_frame_def
        last_dot_segment_def)

lemma engine_byte:
  "fragment_engine (benchmark_pattern [''Byte''])
     = Some (re_match [map (\<lambda>c. (Lit c, Once)) ''Byte''])"
  by (simp add: fragment_engine_def pattern_body_def benchmark_pattern_def atom_of_def quant_of_def
        re_special_def)

lemma filter_byte_eval:
  "filter_for_benchmarks fragment_engine (names_frame [''GetDirect'']) (Some ''Byte'')
     = Inr (names_frame [])"
  by (simp add: filter_for_benchmarks_def engine_byte names_frame_def leading_char_allowed_def
        allowed_char_def get_column_def iterrows_def getitem_def
        benchmark_matches_def select_rows_def isspace_def)

lemma filter_none_eval:
  "filter_for_benchmarks fragment_engine (names_frame [''GetDirect'']) (Some [])
     = Inr (names_frame [''GetDirect''])"
  by (simp add: filter_for_benchmarks_def)

lemma range_100_eval:
  "filter_for_range (names_frame [''GetDirect'']) ''valueSize'' ''100<'' = Inr (names_frame [])"
  by (simp add: filter_for_range_def names_frame_def int_of_str_100
        get_column_def iterrows_def getitem_def in_range_def int_of_cell_def select_rows_def maxsize_def)

theorem pipeline_empty_result_checkpoints_witness:
  "normalize_data_frame_from_path no_merge [names_frame []] = Inr (names_frame [])
   \<and> len (names_frame []) = 0
   \<and> process_benchmarks fragment_engine no_merge True [names_frame []] ''valueSize'' (Some ''Byte'') ''100<''
       = Inl (BenchmarkError ZeroResultsRead)
   \<and> normalize_data_frame_from_path no_merge [names_frame [''org.Bench.GetDirect'']]
       = Inr (names_frame [''GetDirect''])
   \<and> len (names_frame [''GetDirect'']) > 0
   \<and> filter_for_benchmarks fragment_engine (names_frame [''GetDirect'']) (Some ''Byte'') = Inr (names_frame [])
   \<and> process_benchmarks fragment_engine no_merge True [names_frame [''org.Bench.GetDirect'']] ''valueSize''
         (Some ''Byte'') ''100<''
       = Inl (BenchmarkError (ZeroAfterBenchmarks (Some ''Byte'')))
   \<and> filter_for_benchmarks fragment_engine (names_frame [''GetDirect'']) (Some '''') = Inr (names_frame [''GetDirect''])
   \<and> filter_for_range (names_frame [''GetDirect'']) ''valueSize'' ''100<'' = Inr (names_frame [])
   \<and> process_benchmarks fragment_engine no_merge True [names_frame [''org.Bench.GetDirect'']] ''valueSize''
         (Some '''') ''100<''
       = Inl (BenchmarkError (ZeroAfterRange ''100<''))"
proof -
  have l0: "len (names_frame []) = 0"
    by (simp add: len_def names_frame_def)
  have l1: "len (names_frame [''GetDirect'']) > 0"
    by (simp add: len_def names_frame_def)
  have w1: "process_benchmarks fragment_engine no_merge True [names_frame []] ''valueSize'' (Some ''Byte'') ''100<''
       = Inl (BenchmarkError ZeroResultsRead)"
    using pipeline_empty_result_checkpoints
      [where pe = True and merge = no_merge and files = "[names_frame []]"
         and ?df0.0 = "names_frame []" and re_compile = fragment_engine and p = "''valueSize''"
         and rb = "Some ''Byte''" and r = "''100<''",
       THEN conjunct1]
      load_empty_eval l0 by simp
  have w2: "process_benchmarks fragment_engine no_merge True [names_frame [''org.Bench.GetDirect'']] ''valueSize''
         (Some ''Byte'') ''100<''
       = Inl (BenchmarkError (ZeroAfterBenchmarks (Some ''Byte'')))"
    using pipeline_empty_result_checkpoints
      [where pe = True and merge = no_merge and files = "[names_frame [''org.Bench.GetDirect'']]"
         and ?df0.0 = "names_frame [''GetDirect'']" and re_compile = fragment_engine
         and p = "''valueSize''" and rb = "Some ''Byte''" and r = "''100<''"
         and ?df1.0 = "names_frame []",
       THEN conjunct2, THEN conjunct1]
      load_one_eval l0 l1 filter_byte_eval by simp
  have w3: "process_benchmarks fragment_engine no_merge True [names_frame [''org.Bench.GetDirect'']] ''valueSize''
         (Some '''') ''100<''
       = Inl (BenchmarkError (ZeroAfterRange ''100<''))"
    using pipeline_empty_result_checkpoints
      [where pe = True and merge = no_merge and files = "[names_frame [''org.Bench.GetDirect'']]"
         and ?df0.0 = "names_frame [''GetDirect'']" and re_compile = fragment_engine
         and p = "''valueSize''" and rb = "Some []" and r = "''100<''"
         and ?df1.0 = "names_frame [''GetDirect'']" and ?df2.0 = "names_frame []",
       THEN conjunct2, THEN conjunct2, THEN conjunct1]
      load_one_eval l0 l1 filter_none_eval range_100_eval by simp
  from load_empty_eval l0 w1 load_one_eval l1 filter_byte_eval w2 filter_none_eval range_100_eval w3
  show ?thesis
    by (intro conjI)
qed

end
